theory Spec2Isabelle
  imports Main
begin

section \<open>Go strings\<close>

text \<open>
  A Go string is a sequence of bytes, here a \<^typ>\<open>string\<close>. The functions of this section
  are the operations of Go's standard library that the test-script engine calls on strings,
  each written for the arguments the engine passes.
\<close>

abbreviation NL :: char where "NL \<equiv> CHR 0x0A"
abbreviation CR :: char where "CR \<equiv> CHR 0x0D"
abbreviation TAB :: char where "TAB \<equiv> CHR 0x09"
abbreviation SQ :: char where "SQ \<equiv> CHR 0x27"
abbreviation BSL :: char where "BSL \<equiv> CHR 0x5C"

text \<open>\<^verbatim>\<open>strings.HasPrefix\<close> and \<^verbatim>\<open>strings.HasSuffix\<close>.\<close>

definition HasPrefix :: "string \<Rightarrow> string \<Rightarrow> bool" where
  "HasPrefix s p = (take (length p) s = p)"

definition HasSuffix :: "string \<Rightarrow> string \<Rightarrow> bool" where
  "HasSuffix s x = (length x \<le> length s \<and> drop (length s - length x) s = x)"

text \<open>\<^verbatim>\<open>strings.TrimSuffix\<close>: the string without the suffix, or the string itself.\<close>

definition TrimSuffix :: "string \<Rightarrow> string \<Rightarrow> string" where
  "TrimSuffix s x = (if HasSuffix s x then take (length s - length x) s else s)"

text \<open>The slice \<^verbatim>\<open>s[lo:hi]\<close>, for \<open>lo \<le> hi \<le> len(s)\<close>.\<close>

definition slice :: "string \<Rightarrow> nat \<Rightarrow> nat \<Rightarrow> string" where
  "slice s lo hi = take (hi - lo) (drop lo s)"

text \<open>
  \<^verbatim>\<open>strings.IndexByte(s, c)\<close>, also \<^verbatim>\<open>strings.Index\<close> with a separator of one byte: the
  position of the first \<open>c\<close>, \<open>None\<close> for Go's \<open>-1\<close>.
\<close>

definition IndexByte :: "string \<Rightarrow> char \<Rightarrow> nat option" where
  "IndexByte s c = (if c \<in> set s then Some (length (takeWhile (\<lambda>x. x \<noteq> c) s)) else None)"

text \<open>
  \<^verbatim>\<open>strings.SplitN(s, "=", 2)\<close>: the text before the first separator and the text after it,
  or the string alone when it has no separator.
\<close>

definition SplitN2 :: "string \<Rightarrow> char \<Rightarrow> string list" where
  "SplitN2 s c =
     (case IndexByte s c of
        None \<Rightarrow> [s]
      | Some i \<Rightarrow> [take i s, drop (Suc i) s])"

text \<open>
  \<^verbatim>\<open>strings.Index\<close> and \<^verbatim>\<open>strings.LastIndex\<close>: where a substring first and last starts.
\<close>

fun Index :: "string \<Rightarrow> string \<Rightarrow> nat option" where
  "Index [] sep = (if sep = [] then Some 0 else None)"
| "Index (c # s) sep =
     (if HasPrefix (c # s) sep then Some 0 else map_option Suc (Index s sep))"

fun LastIndex :: "string \<Rightarrow> string \<Rightarrow> nat option" where
  "LastIndex [] sep = (if sep = [] then Some 0 else None)"
| "LastIndex (c # s) sep =
     (case LastIndex s sep of
        Some i \<Rightarrow> Some (Suc i)
      | None \<Rightarrow> if HasPrefix (c # s) sep then Some 0 else None)"

text \<open>\<^verbatim>\<open>strings.Contains\<close>.\<close>

definition Contains :: "string \<Rightarrow> string \<Rightarrow> bool" where
  "Contains s substr = (Index s substr \<noteq> None)"

text \<open>\<^verbatim>\<open>strings.ReplaceAll(s, old, new)\<close> for an \<open>old\<close> of one byte.\<close>

definition ReplaceAll :: "string \<Rightarrow> char \<Rightarrow> string \<Rightarrow> string" where
  "ReplaceAll s old new = concat (map (\<lambda>c. if c = old then new else [c]) s)"

text \<open>The verb \<^verbatim>\<open>%d\<close> of \<^verbatim>\<open>fmt\<close> on an \<^verbatim>\<open>int\<close>.\<close>

fun decimal :: "nat \<Rightarrow> string" where
  "decimal n = (if n < 10 then [char_of (48 + n)] else decimal (n div 10) @ [char_of (48 + n mod 10)])"

declare decimal.simps [simp del]

definition Itoa :: "int \<Rightarrow> string" where
  "Itoa i = (if i < 0 then CHR ''-'' # decimal (nat (- i)) else decimal (nat i))"

section \<open>Variable expansion of the standard library\<close>

text \<open>
  \<^verbatim>\<open>os.Expand\<close> with its helpers \<^verbatim>\<open>isShellSpecialVar\<close>, \<^verbatim>\<open>isAlphaNum\<close> and
  \<^verbatim>\<open>getShellName\<close>. \<open>getShellName\<close> is called on a string that is not empty and returns a
  name with the number of bytes it took.
\<close>

definition isShellSpecialVar :: "char \<Rightarrow> bool" where
  "isShellSpecialVar c = (c \<in> set ''*#$@!?-0123456789'')"

definition isAlphaNum :: "char \<Rightarrow> bool" where
  "isAlphaNum c =
     (c = CHR ''_'' \<or> (48 \<le> (of_char c :: nat) \<and> (of_char c :: nat) \<le> 57)
      \<or> (97 \<le> (of_char c :: nat) \<and> (of_char c :: nat) \<le> 122)
      \<or> (65 \<le> (of_char c :: nat) \<and> (of_char c :: nat) \<le> 90))"

definition getShellName :: "string \<Rightarrow> string \<times> nat" where
  "getShellName s =
     (if s ! 0 = CHR ''{'' then
        (if length s > 2 \<and> isShellSpecialVar (s ! 1) \<and> s ! 2 = CHR ''}'' then (slice s 1 2, 3)
         else case IndexByte (drop 1 s) (CHR ''}'') of
                None \<Rightarrow> ([], 1)
              | Some k \<Rightarrow> if k + 1 = 1 then ([], 2) else (slice s 1 (k + 1), k + 1 + 1))
      else if isShellSpecialVar (s ! 0) then (slice s 0 1, 1)
      else (let i = length (takeWhile isAlphaNum s) in (take i s, i)))"

text \<open>
  The loop of \<^verbatim>\<open>os.Expand\<close>: \<open>j\<close> scans the string, \<open>i\<close> is where the text not yet copied
  starts, and \<open>buf\<close> is \<open>None\<close> while the buffer is \<^verbatim>\<open>nil\<close>.
\<close>

function Expand_loop :: "(string \<Rightarrow> string) \<Rightarrow> string \<Rightarrow> nat \<Rightarrow> nat \<Rightarrow> string option \<Rightarrow> string" where
  "Expand_loop mapping s j i buf =
     (if j < length s then
        (if s ! j = CHR ''$'' \<and> j + 1 < length s then
           (let buf1 = (case buf of None \<Rightarrow> [] | Some b \<Rightarrow> b) @ slice s i j;
                (name, w) = getShellName (drop (j + 1) s);
                buf2 = (if name = [] \<and> w > 0 then buf1
                        else if name = [] then buf1 @ [s ! j]
                        else buf1 @ mapping name)
            in Expand_loop mapping s (j + w + 1) (j + w + 1) (Some buf2))
         else Expand_loop mapping s (j + 1) i buf)
      else (case buf of None \<Rightarrow> s | Some b \<Rightarrow> b @ drop i s))"
  by pat_completeness auto
termination
  by (relation "measure (\<lambda>(mapping, s, j, i, buf). length s - j)") auto

declare Expand_loop.simps [simp del]

definition Expand :: "string \<Rightarrow> (string \<Rightarrow> string) \<Rightarrow> string" where
  "Expand s mapping = Expand_loop mapping s 0 0 None"

text \<open>\<^verbatim>\<open>regexp.QuoteMeta\<close>: a backslash before every byte that is special in a pattern.\<close>

definition special :: "char \<Rightarrow> bool" where
  "special c = (c \<in> set (BSL # ''.+*?()|[]{}^$''))"

definition QuoteMeta :: "string \<Rightarrow> string" where
  "QuoteMeta s = concat (map (\<lambda>c. if special c then [BSL, c] else [c]) s)"

section \<open>The host of a run\<close>

text \<open>
  \<^verbatim>\<open>exec.Cmd\<close>, as far as the engine fills it in, and a file of the archive
  (\<^verbatim>\<open>txtar.File\<close>).
\<close>

record Cmd =
  Path :: string
  Args :: "string list"
  Dir :: string
  Environ :: "string list"
  Stdin :: string

record File =
  Name :: string
  Data :: string

text \<open>
  What the engine calls and does not define itself: the platform, the file system, the
  process table, the clock's rendering, and the packages \<^verbatim>\<open>txtar\<close>, \<^verbatim>\<open>execpath\<close>,
  \<^verbatim>\<open>imports\<close> and \<^verbatim>\<open>testenv\<close>. All of it is a parameter of the model. An error of Go is
  its message; \<open>None\<close> is \<^verbatim>\<open>nil\<close>.
\<close>

record Host =
  envvarname :: "string \<Rightarrow> string"
  Verbose :: bool
  Seconds3 :: "nat \<Rightarrow> string"
  Abs :: "string \<Rightarrow> string option"
  Join :: "string \<Rightarrow> string \<Rightarrow> string"
  Base :: "string \<Rightarrow> string"
  Quoteq :: "string \<Rightarrow> string"
  Look :: "string \<Rightarrow> (string \<Rightarrow> string) \<Rightarrow> string + string"
  timewait :: nat
  Start :: "Cmd \<Rightarrow> string option"
  Wait :: "nat option \<Rightarrow> Cmd \<Rightarrow> string \<times> string \<times> string option"
  Short :: bool
  HasExternalNetwork :: bool
  HasLink :: bool
  HasSymlink :: bool
  GOOS :: string
  GOARCH :: string
  KnownOS :: "string \<Rightarrow> bool"
  KnownArch :: "string \<Rightarrow> bool"
  MatchString :: "string \<Rightarrow> string \<Rightarrow> string + bool"
  NeedsQuote :: "string \<Rightarrow> bool"
  Quote :: "string \<Rightarrow> string + string"
  Format :: "File list \<Rightarrow> string"
  WriteFile :: "string \<Rightarrow> string \<Rightarrow> string option"

section \<open>The state of a script\<close>

text \<open>
  \<^verbatim>\<open>type Env struct\<close>: the environment handed to the setup hook, with the fields that the
  environment operations read or write.
\<close>

record Env =
  WorkDir :: string
  Vars :: "string list"
  Cd :: string

text \<open>
  What ends a call early: \<^verbatim>\<open>panic\<close>, or \<^verbatim>\<open>t.FailNow()\<close>, which ends the goroutine of
  the test script (\<^verbatim>\<open>t.Fatal\<close> logs and calls it).
\<close>

datatype abort = Panic string | FailNow

text \<open>
  \<^verbatim>\<open>type TestScript struct\<close>. A time is a reading of the clock, \<open>None\<close> the zero time. A
  deferred action acts on the world \<open>'w\<close> outside the script and reports whether it
  panicked. The map \<^verbatim>\<open>scriptUpdates\<close> is the list of its entries, in the order in which
  \<^verbatim>\<open>range\<close> visits them. The last five fields are not fields of the struct: they record
  what the script did to its surroundings.
\<close>

record 'w TestScript =
  log :: string
  mark :: nat
  cd :: string
  script_file :: string \<comment> \<open>the field \<^verbatim>\<open>file\<close>\<close>
  lineno :: int
  line :: string
  env :: "string list"
  envMap :: "string \<rightharpoonup> string"
  stdin :: string
  stdout :: string
  stderr :: string
  stopped :: bool
  start :: "nat option"
  deferred :: "'w \<Rightarrow> 'w \<times> bool"
  archive :: "File list"
  scriptUpdates :: "(string \<times> string) list"
  console :: string \<comment> \<open>what \<^verbatim>\<open>fmt.Printf\<close> wrote to standard output\<close>
  failed :: bool \<comment> \<open>\<^verbatim>\<open>t.FailNow\<close> was called\<close>
  cancelled :: bool \<comment> \<open>\<^verbatim>\<open>ts.cancel\<close> was called\<close>
  written :: "string option" \<comment> \<open>what \<^verbatim>\<open>os.WriteFile\<close> stored in \<^verbatim>\<open>ts.file\<close>\<close>
  world :: 'w

text \<open>
  A method of the script that can abort returns the abort with the state it left behind,
  or its result.
\<close>

definition andThen :: "'e + 'a \<Rightarrow> ('a \<Rightarrow> 'e + 'b) \<Rightarrow> 'e + 'b" where
  "andThen r f = (case r of Inl e \<Rightarrow> Inl e | Inr x \<Rightarrow> f x)"

section \<open>The environment\<close>

text \<open>
  \<^verbatim>\<open>Env.Getenv\<close>. The loop runs \<open>i\<close> from \<open>len(e.Vars) - 1\<close> down to \<open>0\<close>; the counter of
  the recursion is \<open>i + 1\<close>.
\<close>

fun Getenv_loop :: "Host \<Rightarrow> string list \<Rightarrow> nat \<Rightarrow> string \<Rightarrow> string" where
  "Getenv_loop h vars 0 key = []"
| "Getenv_loop h vars (Suc i) key =
     (let pair = SplitN2 (vars ! i) (CHR ''='')
      in if length pair = 2 \<and> envvarname h (pair ! 0) = key then pair ! 1
         else Getenv_loop h vars i key)"

definition Env_Getenv :: "Host \<Rightarrow> Env \<Rightarrow> string \<Rightarrow> string" where
  "Env_Getenv h e key = Getenv_loop h (Vars e) (length (Vars e)) (envvarname h key)"

text \<open>\<^verbatim>\<open>Env.Setenv\<close>: panics on an invalid key, appends \<open>key=value\<close> otherwise.\<close>

definition Env_Setenv :: "Host \<Rightarrow> Env \<Rightarrow> string \<Rightarrow> string \<Rightarrow> abort + Env" where
  "Env_Setenv h e key val =
     (if key = [] \<or> IndexByte key (CHR ''='') \<noteq> None
      then Inl (Panic (''invalid environment variable key '' @ Quoteq h key))
      else Inr (e\<lparr>Vars := Vars e @ [key @ ''='' @ val]\<rparr>))"

text \<open>
  The end of \<^verbatim>\<open>TestScript.setup\<close>, which builds \<^verbatim>\<open>ts.envMap\<close> from \<^verbatim>\<open>ts.env\<close>: a Go
  map, written entry by entry in the order of the list.
\<close>

fun envMap_of :: "Host \<Rightarrow> string list \<Rightarrow> (string \<rightharpoonup> string) \<Rightarrow> (string \<rightharpoonup> string)" where
  "envMap_of h [] m = m"
| "envMap_of h (kv # rest) m =
     (case IndexByte kv (CHR ''='') of
        Some i \<Rightarrow> envMap_of h rest (m(envvarname h (take i kv) \<mapsto> drop (Suc i) kv))
      | None \<Rightarrow> envMap_of h rest m)"

definition setup_env :: "Host \<Rightarrow> Env \<Rightarrow> 'w TestScript \<Rightarrow> 'w TestScript" where
  "setup_env h e ts = ts\<lparr>cd := Cd e, env := Vars e, envMap := envMap_of h (Vars e) Map.empty\<rparr>"

text \<open>Reading a Go map of strings: a missing key reads as the empty string.\<close>

definition map_get :: "(string \<rightharpoonup> string) \<Rightarrow> string \<Rightarrow> string" where
  "map_get m k = (case m k of None \<Rightarrow> [] | Some v \<Rightarrow> v)"

text \<open>\<^verbatim>\<open>TestScript.Getenv\<close> and \<^verbatim>\<open>TestScript.Setenv\<close>.\<close>

definition Getenv :: "Host \<Rightarrow> 'w TestScript \<Rightarrow> string \<Rightarrow> string" where
  "Getenv h ts key = map_get (envMap ts) (envvarname h key)"

definition Setenv :: "Host \<Rightarrow> 'w TestScript \<Rightarrow> string \<Rightarrow> string \<Rightarrow> 'w TestScript" where
  "Setenv h ts key val =
     ts\<lparr>env := env ts @ [key @ ''='' @ val],
        envMap := (envMap ts)(envvarname h key \<mapsto> val)\<rparr>"

text \<open>
  Modelled from the spec: the \<open>envvarname\<close> of a platform where keys are "compared
  case-insensitively", which is in a platform file that is not among the sources (the
  comment on \<^verbatim>\<open>envMap\<close> says that on Windows keys are lowercase). It lowers the ASCII
  letters of a key. It is used for an example only; the model takes \<open>envvarname\<close> as a
  parameter.
\<close>

definition lower_byte :: "char \<Rightarrow> char" where
  "lower_byte c =
     (if (65::nat) \<le> of_char c \<and> of_char c \<le> (90::nat) then char_of (of_char c + (32::nat)) else c)"

definition envvarname_windows :: "string \<Rightarrow> string" where
  "envvarname_windows k = map lower_byte k"

text \<open>
  The lookup as the specification words it, to compare the code with: an entry of the
  list matches a key when it has a \<open>=\<close> and the names before it agree; the last match
  wins, and a key without a match reads as the empty string.
\<close>

definition env_match :: "Host \<Rightarrow> string \<Rightarrow> string \<Rightarrow> bool" where
  "env_match h key kv =
     (CHR ''='' \<in> set kv \<and> envvarname h (takeWhile (\<lambda>x. x \<noteq> CHR ''='') kv) = envvarname h key)"

definition last_match :: "Host \<Rightarrow> string \<Rightarrow> string list \<Rightarrow> string" where
  "last_match h key vars =
     (let matches = filter (env_match h key) vars
      in if matches = [] then [] else tl (dropWhile (\<lambda>x. x \<noteq> CHR ''='') (last matches)))"

text \<open>
  The map of a script matches its list, as the comment on \<^verbatim>\<open>envMap\<close> says: every key reads
  in the map as its last match in the list.
\<close>

definition env_consistent :: "Host \<Rightarrow> 'w TestScript \<Rightarrow> bool" where
  "env_consistent h ts = (\<forall>key. Getenv h ts key = last_match h key (env ts))"

section \<open>Failure reporting\<close>

text \<open>
  \<^verbatim>\<open>TestScript.Logf\<close>, for a format that does not end in a newline: \<open>msg\<close> is the
  formatted text.
\<close>

definition Logf :: "string \<Rightarrow> 'w TestScript \<Rightarrow> 'w TestScript" where
  "Logf msg ts = ts\<lparr>log := log ts @ msg @ [NL]\<rparr>"

text \<open>
  The path that \<^verbatim>\<open>addGHAnnotation\<close> prints: the script's file, or its path from the
  directory \<open>tests\<close> when the absolute path goes through one.
\<close>

definition pathToPrint :: "Host \<Rightarrow> string \<Rightarrow> string" where
  "pathToPrint h f =
     (case Abs h f of
        None \<Rightarrow> f
      | Some a \<Rightarrow>
          (case Index a ''/tests/'' of
             None \<Rightarrow> f
           | Some i \<Rightarrow> Join h ''tests'' (drop (i + length ''/tests/'') a)))"

text \<open>
  \<^verbatim>\<open>TestScript.addGHAnnotation\<close>; \<open>stdout_marker\<close> is the text \<^verbatim>\<open>"\n[stdout]\n"\<close> that it
  looks for.
\<close>

definition stdout_marker :: string where
  "stdout_marker = NL # ''[stdout]'' @ [NL]"

definition lastIndexOfStdout :: "string \<Rightarrow> nat" where
  "lastIndexOfStdout l = (case LastIndex l stdout_marker of None \<Rightarrow> 0 | Some i \<Rightarrow> i + 1)"

definition ghAnnotation :: "string \<Rightarrow> string" where
  "ghAnnotation l =
     ReplaceAll (ReplaceAll (drop (lastIndexOfStdout l) l) NL ''%0A'') CR ''%0D''"

definition addGHAnnotation :: "Host \<Rightarrow> 'w TestScript \<Rightarrow> 'w TestScript" where
  "addGHAnnotation h ts =
     ts\<lparr>console := console ts @ ''::error file='' @ pathToPrint h (script_file ts)
          @ '',line='' @ Itoa (lineno ts) @ ''::'' @ ghAnnotation (log ts) @ [NL]\<rparr>"

text \<open>
  \<^verbatim>\<open>TestScript.Fatalf\<close>, with \<open>msg\<close> the formatted message. The result is the state the
  call leaves behind: \<^verbatim>\<open>t.FailNow()\<close> does not return, and the deferred \<^verbatim>\<open>ts.cancel()\<close>
  runs on the way out.
\<close>

definition Fatalf :: "Host \<Rightarrow> string \<Rightarrow> 'w TestScript \<Rightarrow> 'w TestScript" where
  "Fatalf h msg ts =
     (let ts1 = ts\<lparr>stopped := True\<rparr>;
          ts2 = ts1\<lparr>log := log ts1 @ ''FAIL: '' @ script_file ts1 @ '':'' @ Itoa (lineno ts1)
                         @ '': '' @ msg @ [NL]\<rparr>;
          ts3 = addGHAnnotation h ts2;
          ts4 = ts3\<lparr>failed := True\<rparr>
      in ts4\<lparr>cancelled := True\<rparr>)"

text \<open>
  \<^verbatim>\<open>bufio.Scanner\<close> with the split function \<^verbatim>\<open>bufio.ScanLines\<close> and the buffer that
  \<^verbatim>\<open>removeGHAnnotation\<close> gives it, of at most \<^verbatim>\<open>1024*1024\<close> bytes. \<open>scan_lines\<close> cuts the
  text at its line feeds, a last line without a line feed included when it is not empty;
  a line is returned without its trailing carriage return. The scan stops with the error
  \<^verbatim>\<open>ErrTooLong\<close> at a line that fills the buffer before its line feed is read.
\<close>

definition maxTokenSize :: nat where
  "maxTokenSize = 1024 * 1024"

fun scan_lines :: "string \<Rightarrow> string \<Rightarrow> string list" where
  "scan_lines cur [] = (if cur = [] then [] else [cur])"
| "scan_lines cur (c # cs) = (if c = NL then cur # scan_lines [] cs else scan_lines (cur @ [c]) cs)"

definition dropCR :: "string \<Rightarrow> string" where
  "dropCR l = (if l \<noteq> [] \<and> last l = CR then butlast l else l)"

definition Scan :: "string \<Rightarrow> string + string list" where
  "Scan s =
     (let ls = scan_lines [] s
      in if list_ex (\<lambda>l. maxTokenSize \<le> length l) ls then Inl ''bufio.Scanner: token too long''
         else Inr (map dropCR ls))"

text \<open>
  \<^verbatim>\<open>TestScript.removeGHAnnotation\<close>: the transcript without the lines that hold an
  annotation, or, when the scan of the transcript fails, the exit of the process with
  status 1 (\<^verbatim>\<open>os.Exit(1)\<close>) after a message on standard output. Writing to the buffer
  \<open>filteredBuffer\<close> returns no error.
\<close>

definition removeGHAnnotation :: "'w TestScript \<Rightarrow> (nat \<times> 'w TestScript) + 'w TestScript" where
  "removeGHAnnotation ts =
     (case Scan (log ts) of
        Inl err \<Rightarrow> Inl (1, ts\<lparr>console := console ts @ ''cannot read buffer: '' @ err\<rparr>)
      | Inr ls \<Rightarrow>
          Inr (ts\<lparr>log := concat (map (\<lambda>l. l @ [NL]) (filter (\<lambda>l. \<not> Contains l ''::error file'') ls))\<rparr>))"

section \<open>The argument grammar\<close>

text \<open>\<^verbatim>\<open>TestScript.expand\<close>; \<open>expand_mapping\<close> is the function it passes to \<^verbatim>\<open>os.Expand\<close>.\<close>

definition expand_mapping :: "Host \<Rightarrow> 'w TestScript \<Rightarrow> string \<Rightarrow> string" where
  "expand_mapping h ts key =
     (let key1 = TrimSuffix key ''@R''
      in if length key1 \<noteq> length key then QuoteMeta (Getenv h ts key1) else Getenv h ts key)"

definition expand :: "Host \<Rightarrow> 'w TestScript \<Rightarrow> string \<Rightarrow> string" where
  "expand h ts s = Expand s (expand_mapping h ts)"

text \<open>
  The loop of \<^verbatim>\<open>TestScript.parse\<close>, with its variables \<open>args\<close>, \<open>arg\<close>, \<open>start\<close> (here
  \<open>start0\<close>) and \<open>quoted\<close>; \<open>ex\<close> is the expansion. The loop ends with the arguments, or with the message
  that it gives to \<^verbatim>\<open>Fatalf\<close>.
\<close>

function parse_loop ::
  "(string \<Rightarrow> string) \<Rightarrow> string \<Rightarrow> nat \<Rightarrow> string list \<Rightarrow> string \<Rightarrow> int \<Rightarrow> bool \<Rightarrow> string + string list" where
  "parse_loop ex ln i args arg start0 quoted =
     (if \<not> quoted \<and> (i \<ge> length ln \<or> ln ! i = CHR '' '' \<or> ln ! i = TAB \<or> ln ! i = CR \<or> ln ! i = CHR ''#'') then
        (let (args1, arg1, start1) =
               (if start0 \<ge> 0 then (args @ [arg @ ex (slice ln (nat start0) i)], [], - 1)
                else (args, arg, start0))
         in if i \<ge> length ln \<or> ln ! i = CHR ''#'' then Inr args1
            else parse_loop ex ln (i + 1) args1 arg1 start1 quoted)
      else if i \<ge> length ln then Inl ''unterminated quoted argument''
      else if ln ! i = SQ then
        (if \<not> quoted then
           parse_loop ex ln (i + 1) args
             (if start0 \<ge> 0 then arg @ ex (slice ln (nat start0) i) else arg) (int i + 1) True
         else if i + 1 < length ln \<and> ln ! (i + 1) = SQ then
           parse_loop ex ln (i + 1 + 1) args (arg @ slice ln (nat start0) i) (int i + 1) quoted
         else
           parse_loop ex ln (i + 1) args (arg @ slice ln (nat start0) i) (int i + 1) False)
      else parse_loop ex ln (i + 1) args arg (if start0 < 0 then int i else start0) quoted)"
  by pat_completeness auto
termination
  by (relation "measure (\<lambda>(ex, ln, i, args, arg, start0, quoted). length ln - i)") auto

declare parse_loop.simps [simp del]

text \<open>\<^verbatim>\<open>TestScript.parse\<close>.\<close>

definition parse :: "Host \<Rightarrow> 'w TestScript \<Rightarrow> string \<Rightarrow> (abort \<times> 'w TestScript) + (string list \<times> 'w TestScript)" where
  "parse h ts ln =
     (let ts1 = ts\<lparr>line := ln\<rparr>
      in case parse_loop (expand h ts1) ln 0 [] [] (- 1) False of
           Inl msg \<Rightarrow> Inl (FailNow, Fatalf h msg ts1)
         | Inr args \<Rightarrow> Inr (args, ts1))"

text \<open>
  Whether the quoting of a line is left open: outside quotes a \<open>#\<close> ends the line, and
  every single quote opens or closes a quoted region.
\<close>

fun unterminated :: "bool \<Rightarrow> string \<Rightarrow> bool" where
  "unterminated q [] = q"
| "unterminated q (c # cs) =
     (if \<not> q \<and> c = CHR ''#'' then False
      else if c = SQ then unterminated (\<not> q) cs
      else unterminated q cs)"

section \<open>Phases of the transcript\<close>

text \<open>
  The closure \<^verbatim>\<open>rewind\<close> of \<^verbatim>\<open>TestScript.run\<close>. \<^verbatim>\<open>bytes.Buffer.Truncate\<close> panics when
  asked for more than the buffer holds.
\<close>

definition rewind :: "Host \<Rightarrow> 'w TestScript \<Rightarrow> (abort \<times> 'w TestScript) + 'w TestScript" where
  "rewind h ts =
     (if \<not> Verbose h then
        (if mark ts > length (log ts)
         then Inl (Panic ''bytes.Buffer: truncation out of range'', ts)
         else Inr (ts\<lparr>log := take (mark ts) (log ts)\<rparr>))
      else Inr ts)"

text \<open>
  The closure \<^verbatim>\<open>markTime\<close>, called when the clock reads \<open>now\<close>. \<open>Seconds3\<close> renders the
  elapsed time as \<^verbatim>\<open>%.3f\<close> does.
\<close>

definition markTime :: "Host \<Rightarrow> nat \<Rightarrow> 'w TestScript \<Rightarrow> (abort \<times> 'w TestScript) + 'w TestScript" where
  "markTime h now ts =
     (case start ts of
        Some t \<Rightarrow>
          (if mark ts > 0 then
             (if mark ts > length (log ts)
              then Inl (Panic ''slice bounds out of range'', ts)
              else (let afterMark = drop (mark ts) (log ts)
                    in Inr (ts\<lparr>log := take (mark ts - 1) (log ts)
                                     @ '' ('' @ Seconds3 h (now - t) @ ''s)'' @ [NL] @ afterMark,
                                start := None\<rparr>)))
           else Inr (ts\<lparr>start := None\<rparr>))
      | None \<Rightarrow> Inr (ts\<lparr>start := None\<rparr>))"

text \<open>
  The branch of the loop of \<^verbatim>\<open>run\<close> for a line that starts with \<open>#\<close>: it closes the
  phase before, when that phase logged anything, and opens the next. The clock reads
  \<open>now\<close> at the close and \<open>now'\<close> at the opening.
\<close>

definition phase :: "Host \<Rightarrow> nat \<Rightarrow> nat \<Rightarrow> string \<Rightarrow> 'w TestScript \<Rightarrow> (abort \<times> 'w TestScript) + 'w TestScript" where
  "phase h now now' ln ts =
     andThen
       (if length (log ts) > mark ts then andThen (rewind h ts) (markTime h now) else Inr ts)
       (\<lambda>ts1. let ts2 = ts1\<lparr>log := log ts1 @ ln @ [NL]\<rparr>;
                   ts3 = ts2\<lparr>mark := length (log ts2)\<rparr>
               in Inr (ts3\<lparr>start := Some now'\<rparr>))"

text \<open>The end of the last phase, after the loop: \<^verbatim>\<open>rewind(); markTime()\<close>.\<close>

definition final_phase :: "Host \<Rightarrow> nat \<Rightarrow> 'w TestScript \<Rightarrow> (abort \<times> 'w TestScript) + 'w TestScript" where
  "final_phase h now ts = andThen (rewind h ts) (markTime h now)"

section \<open>Running commands\<close>

text \<open>
  \<^verbatim>\<open>TestScript.buildExecCmd\<close>: the context's timeout, if one is set, and the command.
\<close>

definition Command :: "string \<Rightarrow> string list \<Rightarrow> Cmd" where
  "Command name args = \<lparr>Path = name, Args = name # args, Dir = [], Environ = [], Stdin = []\<rparr>"

definition buildExecCmd :: "Host \<Rightarrow> 'w TestScript \<Rightarrow> string \<Rightarrow> string list \<Rightarrow> string + (nat option \<times> Cmd)" where
  "buildExecCmd h ts command args =
     andThen
       (if Base h command = command then Look h command (Getenv h ts) else Inr command)
       (\<lambda>command1.
          if timewait h = 0 then Inr (None, Command command1 args)
          else Inr (Some (timewait h), Command command1 args))"

text \<open>
  \<^verbatim>\<open>TestScript.exec\<close>: the standard output, the standard error and the error of the
  command, with the state of the script afterwards.
\<close>

definition exec :: "Host \<Rightarrow> 'w TestScript \<Rightarrow> string \<Rightarrow> string list \<Rightarrow> (string \<times> string \<times> string option) \<times> 'w TestScript" where
  "exec h ts command args =
     (case buildExecCmd h ts command args of
        Inl err \<Rightarrow> (([], [], Some err), ts)
      | Inr (ctx, cmd0) \<Rightarrow>
          (let cmd1 = cmd0\<lparr>Dir := cd ts\<rparr>;
               cmd2 = cmd1\<lparr>Environ := env ts @ [''PWD='' @ cd ts]\<rparr>;
               cmd3 = cmd2\<lparr>Stdin := stdin ts\<rparr>;
               r = (case Start h cmd3 of
                      Some err \<Rightarrow> ([], [], Some err)
                    | None \<Rightarrow> Wait h ctx cmd3)
           in (r, ts\<lparr>stdin := []\<rparr>)))"

text \<open>
  \<^verbatim>\<open>TestScript.execBackground\<close>: the command that was started and the error of
  \<^verbatim>\<open>cmd.Start()\<close>, or the error of building the command.
\<close>

definition execBackground :: "Host \<Rightarrow> 'w TestScript \<Rightarrow> string \<Rightarrow> string list \<Rightarrow> (Cmd option \<times> string option) \<times> 'w TestScript" where
  "execBackground h ts command args =
     (case buildExecCmd h ts command args of
        Inl err \<Rightarrow> ((None, Some err), ts)
      | Inr (ctx, cmd0) \<Rightarrow>
          (let cmd1 = cmd0\<lparr>Dir := cd ts\<rparr>;
               cmd2 = cmd1\<lparr>Environ := env ts @ [''PWD='' @ cd ts]\<rparr>;
               cmd3 = cmd2\<lparr>Stdin := stdin ts\<rparr>
           in ((Some cmd3, Start h cmd3), ts\<lparr>stdin := []\<rparr>)))"

text \<open>\<^verbatim>\<open>TestScript.Exec\<close>.\<close>

definition Exec :: "Host \<Rightarrow> 'w TestScript \<Rightarrow> string \<Rightarrow> string list \<Rightarrow> string option \<times> 'w TestScript" where
  "Exec h ts command args =
     (case exec h ts command args of
        ((out, err, e), ts1) \<Rightarrow>
          (let ts2 = ts1\<lparr>stdout := out, stderr := err\<rparr>;
               ts3 = (if stdout ts2 \<noteq> [] then Logf (''[stdout]'' @ [NL] @ stdout ts2) ts2 else ts2);
               ts4 = (if stderr ts3 \<noteq> [] then Logf (''[stderr]'' @ [NL] @ stderr ts3) ts3 else ts3)
           in (e, ts4)))"

section \<open>Conditions\<close>

text \<open>
  The package variable \<^verbatim>\<open>execCache\<close>, with a record of the lookups on the search path
  that \<^verbatim>\<open>execpath.Look\<close> made for it.
\<close>

record Globals =
  execCache :: "string \<rightharpoonup> bool"
  probes :: "string list"

text \<open>
  Modelled from the spec: \<^verbatim>\<open>par.Cache.Do\<close>, of the package \<^verbatim>\<open>par\<close>, which is not among the
  sources. The spec says of it that the condition \<open>exec:<name>\<close> checks "with memoization
  keyed by name": the first call for a key runs the function and stores its result, every
  later call for the key returns the stored result and does not run the function.
\<close>

definition Cache_Do :: "('k \<rightharpoonup> 'v) \<Rightarrow> 'k \<Rightarrow> ('s \<Rightarrow> 'v \<times> 's) \<Rightarrow> 's \<Rightarrow> 'v \<times> ('k \<rightharpoonup> 'v) \<times> 's" where
  "Cache_Do c k f s =
     (case c k of
        Some v \<Rightarrow> (v, c, s)
      | None \<Rightarrow> (case f s of (v, s1) \<Rightarrow> (v, c(k \<mapsto> v), s1)))"

text \<open>\<^verbatim>\<open>TestScript.Check\<close>, on an error that is not \<^verbatim>\<open>nil\<close>.\<close>

definition Check_failed :: "Host \<Rightarrow> string \<Rightarrow> 'w TestScript \<Rightarrow> abort \<times> 'w TestScript" where
  "Check_failed h err ts = (FailNow, Fatalf h err ts)"

text \<open>
  \<^verbatim>\<open>TestScript.condition\<close>: the truth value and the error it returns, with the globals
  afterwards, or the abort of a fatal failure. \<open>Condition\<close> is \<^verbatim>\<open>ts.params.Condition\<close>.
\<close>

definition condition ::
  "Host \<Rightarrow> ('w TestScript \<Rightarrow> string \<Rightarrow> bool \<times> string option) option \<Rightarrow> Globals \<Rightarrow> 'w TestScript \<Rightarrow> string
     \<Rightarrow> (abort \<times> 'w TestScript) + ((bool \<times> string option) \<times> Globals)" where
  "condition h Condition g ts cond =
     (if cond = ''short'' then Inr ((Short h, None), g)
      else if cond = ''net'' then Inr ((HasExternalNetwork h, None), g)
      else if cond = ''link'' then Inr ((HasLink h, None), g)
      else if cond = ''symlink'' then Inr ((HasSymlink h, None), g)
      else if cond = GOOS h \<or> cond = GOARCH h then Inr ((True, None), g)
      else if KnownArch h cond \<or> KnownOS h cond then Inr ((False, None), g)
      else if HasPrefix cond ''exec:'' then
        (let prog = drop (length ''exec:'') cond
         in case Cache_Do (execCache g) prog
                   (\<lambda>looked. (case Look h prog (Getenv h ts) of Inl err \<Rightarrow> False | Inr p \<Rightarrow> True,
                               looked @ [prog]))
                   (probes g) of
              (ok, c, looked) \<Rightarrow> Inr ((ok, None), g\<lparr>execCache := c, probes := looked\<rparr>))
      else if HasPrefix cond ''stdout:'' \<or> HasPrefix cond ''stderr:'' then
        (let (pattern, source) =
               (if HasPrefix cond ''stdout:'' then (drop (length ''stdout:'') cond, stdout ts)
                else (drop (length ''stderr:'') cond, stderr ts))
         in case MatchString h (''(?m)'' @ pattern) source of
              Inl err \<Rightarrow> Inl (Check_failed h err ts)
            | Inr b \<Rightarrow> Inr ((b, None), g))
      else (case Condition of
              Some f \<Rightarrow> Inr (f ts cond, g)
            | None \<Rightarrow> Inl (FailNow, Fatalf h (''unknown condition '' @ Quoteq h cond) ts)))"

section \<open>Updating the archive\<close>

text \<open>
  The inner loop of \<^verbatim>\<open>TestScript.applyScriptUpdates\<close> over the files of the archive, for
  one entry of \<^verbatim>\<open>scriptUpdates\<close>: the files afterwards and the variable \<open>found\<close>, or the
  message of \<^verbatim>\<open>t.Fatal\<close>.
\<close>

fun update_files :: "Host \<Rightarrow> string \<Rightarrow> string \<Rightarrow> File list \<Rightarrow> bool \<Rightarrow> string + (File list \<times> bool)" where
  "update_files h name content [] found = Inr ([], found)"
| "update_files h name content (f # fs) found =
     (if Name f \<noteq> name then
        andThen (update_files h name content fs found) (\<lambda>(fs1, found1). Inr (f # fs1, found1))
      else if NeedsQuote h content then
        (case Quote h content of
           Inl err \<Rightarrow> Inl (''cannot update script file '' @ Quoteq h (Name f) @ '': '' @ err)
         | Inr data1 \<Rightarrow>
             andThen (update_files h name content fs True)
               (\<lambda>(fs1, found1). Inr (f\<lparr>Data := data1\<rparr> # fs1, found1)))
      else
        andThen (update_files h name content fs True)
          (\<lambda>(fs1, found1). Inr (f\<lparr>Data := content\<rparr> # fs1, found1)))"

text \<open>
  The outer loop, over the entries of \<^verbatim>\<open>scriptUpdates\<close>: the files at the end, or the
  abort with the files as they are then.
\<close>

fun apply_updates :: "Host \<Rightarrow> (string \<times> string) list \<Rightarrow> File list \<Rightarrow> (abort \<times> File list) + File list" where
  "apply_updates h [] files = Inr files"
| "apply_updates h ((name, content) # rest) files =
     (case update_files h name content files False of
        Inl msg \<Rightarrow> Inl (FailNow, files)
      | Inr (files1, found) \<Rightarrow>
          if \<not> found then Inl (Panic ''script update file not found'', files1)
          else apply_updates h rest files1)"

text \<open>\<^verbatim>\<open>TestScript.applyScriptUpdates\<close>.\<close>

definition applyScriptUpdates :: "Host \<Rightarrow> 'w TestScript \<Rightarrow> (abort \<times> 'w TestScript) + 'w TestScript" where
  "applyScriptUpdates h ts =
     (if length (scriptUpdates ts) = 0 then Inr ts
      else case apply_updates h (scriptUpdates ts) (archive ts) of
             Inl (a, files) \<Rightarrow> Inl (a, ts\<lparr>archive := files\<rparr>)
           | Inr files \<Rightarrow>
               (let ts1 = ts\<lparr>archive := files\<rparr>
                in case WriteFile h (script_file ts1) (Format h (archive ts1)) of
                     Some err \<Rightarrow> Inl (FailNow, ts1)
                   | None \<Rightarrow>
                       Inr (Logf (script_file ts1 @ '' updated'')
                              (ts1\<lparr>written := Some (Format h (archive ts1))\<rparr>))))"

text \<open>What an update stores in a file: the content, quoted when it needs quoting.\<close>

definition stored :: "Host \<Rightarrow> string \<Rightarrow> string" where
  "stored h content =
     (if NeedsQuote h content then (case Quote h content of Inl err \<Rightarrow> content | Inr d \<Rightarrow> d)
      else content)"

text \<open>An update can be stored when its content needs no quoting or can be quoted.\<close>

definition quotable :: "Host \<Rightarrow> string \<Rightarrow> bool" where
  "quotable h content =
     (\<not> NeedsQuote h content \<or> (case Quote h content of Inl err \<Rightarrow> False | Inr d \<Rightarrow> True))"

section \<open>Deferred actions\<close>

text \<open>
  \<^verbatim>\<open>TestScript.Defer\<close>. The new action calls \<open>f\<close> and then, by Go's \<^verbatim>\<open>defer\<close>, the old
  action, also when \<open>f\<close> panics; it has panicked when either has.
\<close>

definition Defer :: "('w \<Rightarrow> 'w \<times> bool) \<Rightarrow> 'w TestScript \<Rightarrow> 'w TestScript" where
  "Defer f ts =
     (let old = deferred ts
      in ts\<lparr>deferred := (\<lambda>w. case f w of (w1, p1) \<Rightarrow> (case old w1 of (w2, p2) \<Rightarrow> (w2, p1 \<or> p2)))\<rparr>)"

text \<open>The action a script starts with, \<^verbatim>\<open>func() {}\<close>, as \<^verbatim>\<open>RunT\<close> sets it.\<close>

definition no_action :: "'w \<Rightarrow> 'w \<times> bool" where
  "no_action w = (w, False)"

text \<open>
  The loop of \<^verbatim>\<open>TestScript.run\<close> over the directives of a script, each one already
  resolved to its command: a command changes the state and may abort the run
  (\<^verbatim>\<open>Fatalf\<close>, a panic); the loop stops after a command that set \<^verbatim>\<open>ts.stopped\<close>.
\<close>

fun run_commands :: "('w TestScript \<Rightarrow> (abort \<times> 'w TestScript) + 'w TestScript) list \<Rightarrow> 'w TestScript
    \<Rightarrow> (abort \<times> 'w TestScript) + 'w TestScript" where
  "run_commands [] ts = Inr ts"
| "run_commands (c # cs) ts =
     (case c ts of
        Inl a \<Rightarrow> Inl a
      | Inr ts1 \<Rightarrow> if stopped ts1 then Inr ts1 else run_commands cs ts1)"

text \<open>
  The end of the body of \<^verbatim>\<open>TestScript.run\<close>, after the loop. \<open>wait\<close> is the wait for the
  background processes (they are interrupted, then \<^verbatim>\<open>ts.cmdWait(false, nil)\<close>), a command
  like any other; then the last phase ends, and a script that was not stopped has its
  annotations removed and the line \<open>PASS\<close> added. The result is the exit of the process,
  with its status and the state of the script then, or else the abort or the normal end
  of the body.
\<close>

definition run_end :: "Host \<Rightarrow> ('w TestScript \<Rightarrow> (abort \<times> 'w TestScript) + 'w TestScript) \<Rightarrow> nat \<Rightarrow> 'w TestScript
    \<Rightarrow> (nat \<times> 'w TestScript) + ((abort \<times> 'w TestScript) + 'w TestScript)" where
  "run_end h wait now ts =
     (case wait ts of
        Inl a \<Rightarrow> Inr (Inl a)
      | Inr ts1 \<Rightarrow>
          (case final_phase h now ts1 of
             Inl a \<Rightarrow> Inr (Inl a)
           | Inr ts2 \<Rightarrow>
               if \<not> stopped ts2 then
                 (case removeGHAnnotation ts2 of
                    Inl x \<Rightarrow> Inl x
                  | Inr ts3 \<Rightarrow> Inr (Inr (ts3\<lparr>log := log ts3 @ ''PASS'' @ [NL]\<rparr>)))
               else Inr (Inr ts2)))"

text \<open>
  \<^verbatim>\<open>TestScript.run\<close>, from the loop on. The body runs the commands and then its end.
  When the process exits in the body, nothing more happens: Go runs no deferred function
  after \<^verbatim>\<open>os.Exit\<close>. Otherwise, on the way out, whether the body returned or was aborted,
  Go calls the deferred functions of \<^verbatim>\<open>run\<close>, the last deferred first, also when one of
  them panics: \<^verbatim>\<open>ts.applyScriptUpdates()\<close>, then the function that calls
  \<^verbatim>\<open>ts.deferred()\<close>. The result is the exit of the process, or what happened (the abort of
  the body, the abort of the update, whether a deferred action panicked) and the state at
  the end. The setup and the function deferred first in \<^verbatim>\<open>run\<close>, which runs after these
  (background processes, the flush of the transcript), are left out.
\<close>

definition run :: "Host \<Rightarrow> ('w TestScript \<Rightarrow> (abort \<times> 'w TestScript) + 'w TestScript) \<Rightarrow> nat
    \<Rightarrow> ('w TestScript \<Rightarrow> (abort \<times> 'w TestScript) + 'w TestScript) list \<Rightarrow> 'w TestScript
    \<Rightarrow> (nat \<times> 'w TestScript) + ((abort option \<times> abort option \<times> bool) \<times> 'w TestScript)" where
  "run h wait now cs ts =
     (case (case run_commands cs ts of
              Inl a \<Rightarrow> Inr (Inl a)
            | Inr ts0 \<Rightarrow> run_end h wait now ts0) of
        Inl x \<Rightarrow> Inl x
      | Inr body \<Rightarrow>
          (let (a1, ts1) = (case body of Inl (a, t) \<Rightarrow> (Some a, t) | Inr t \<Rightarrow> (None, t));
               (a2, ts2) = (case applyScriptUpdates h ts1 of Inl (a, t) \<Rightarrow> (Some a, t) | Inr t \<Rightarrow> (None, t));
               (w, p) = deferred ts2 (world ts2)
           in Inr ((a1, a2, p), ts2\<lparr>world := w\<rparr>)))"

text \<open>A command that registers a deferred action, and one that fails the script.\<close>

definition defer_command :: "('w \<Rightarrow> 'w \<times> bool) \<Rightarrow> 'w TestScript \<Rightarrow> (abort \<times> 'w TestScript) + 'w TestScript" where
  "defer_command f ts = Inr (Defer f ts)"

definition fatal_command :: "Host \<Rightarrow> string \<Rightarrow> 'w TestScript \<Rightarrow> (abort \<times> 'w TestScript) + 'w TestScript" where
  "fatal_command h msg ts = Inl (FailNow, Fatalf h msg ts)"

section \<open>Sample data\<close>

text \<open>
  A host to evaluate examples on: Linux on amd64, a quiet run, no timeout, an empty search
  path, a file system that takes every write, patterns that match nothing, a clock that
  counts whole seconds.
\<close>

definition whole_seconds :: "nat \<Rightarrow> string" where
  "whole_seconds d = decimal d @ ''.000''"

definition linux_host :: Host where
  "linux_host =
     \<lparr>envvarname = (\<lambda>k. k), Verbose = False, Seconds3 = whole_seconds,
      Abs = (\<lambda>f. Some (''/src/eden/'' @ f)), Join = (\<lambda>a b. a @ ''/'' @ b), Base = (\<lambda>f. f),
      Quoteq = (\<lambda>s. CHR 0x22 # s @ [CHR 0x22]),
      Look = (\<lambda>prog getenv. Inl (''executable file not found in $PATH'')), timewait = 0,
      Start = (\<lambda>c. None), Wait = (\<lambda>ctx c. (Stdin c, [], None)),
      Short = False, HasExternalNetwork = False, HasLink = True, HasSymlink = True,
      GOOS = ''linux'', GOARCH = ''amd64'',
      KnownOS = (\<lambda>s. s \<in> set [''linux'', ''darwin'', ''windows'']),
      KnownArch = (\<lambda>s. s \<in> set [''amd64'', ''arm64'']),
      MatchString = (\<lambda>pattern source. Inr False),
      NeedsQuote = (\<lambda>d. False), Quote = (\<lambda>d. Inr d),
      Format = (\<lambda>fs. concat (map (\<lambda>f. ''-- '' @ Name f @ '' --'' @ [NL] @ Data f) fs)),
      WriteFile = (\<lambda>f d. None)\<rparr>"

text \<open>A script before its first line, in the file \<open>tests/app/testdata/run.txt\<close>.\<close>

definition new_script :: "'w \<Rightarrow> 'w TestScript" where
  "new_script w =
     \<lparr>log = [], mark = 0, cd = ''/tmp/work'', script_file = ''tests/app/testdata/run.txt'',
      lineno = 0, line = [], env = [], envMap = Map.empty, stdin = [], stdout = [], stderr = [],
      stopped = False, start = None, deferred = no_action, archive = [],
      scriptUpdates = [], console = [], failed = False, cancelled = False, written = None,
      world = w\<rparr>"

section \<open>Predicates and data of the properties\<close>


text \<open>A script whose variable \<open>X\<close> holds \<open>a.b\<close>.\<close>

definition tsx :: "unit TestScript" where
  "tsx = Setenv linux_host (new_script ()) ''X'' ''a.b''"

text \<open>A host that finds every program in \<open>/bin\<close> and cannot start any.\<close>

definition broken_host :: Host where
  "broken_host = linux_host\<lparr>Look := (\<lambda>prog getenv. Inr (''/bin/'' @ prog)), Start := (\<lambda>c. Some ''fork failed'')\<rparr>"

text \<open>A script that holds standard input for its next command.\<close>

definition ts_stdin :: "unit TestScript" where
  "ts_stdin = (new_script ())\<lparr>stdin := ''data''\<rparr>"

text \<open>
  The command that a launch hands to the system, from the command \<open>c\<close> that was built:
  with the directory of the script, its environment and its stored standard input.
\<close>

definition launched :: "'w TestScript \<Rightarrow> Cmd \<Rightarrow> Cmd" where
  "launched ts c = c\<lparr>Dir := cd ts, Environ := env ts @ [''PWD='' @ cd ts], Stdin := stdin ts\<rparr>"

text \<open>
  A host that finds every program in \<open>/bin\<close> and whose programs copy their standard input
  to their standard output.
\<close>

definition cat_host :: Host where
  "cat_host = linux_host\<lparr>Look := (\<lambda>prog getenv. Inr (''/bin/'' @ prog))\<rparr>"

text \<open>The environment that the setup hook gets, before it adds anything.\<close>

definition env0 :: Env where
  "env0 = \<lparr>WorkDir = ''/tmp/work'', Vars = [''WORK=/tmp/work''], Cd = ''/tmp/work''\<rparr>"

text \<open>A deferred action that notes its number in the world, a list of numbers.\<close>

definition noting :: "nat \<Rightarrow> nat list \<Rightarrow> nat list \<times> bool" where
  "noting n tr = (tr @ [n], False)"

text \<open>
  The condition \<open>exec:prog\<close> reaches the branch for \<open>exec:\<close> when it is not the name of the
  platform and not a known system or architecture.
\<close>

definition reaches_exec :: "Host \<Rightarrow> string \<Rightarrow> bool" where
  "reaches_exec h prog =
     (''exec:'' @ prog \<noteq> GOOS h \<and> ''exec:'' @ prog \<noteq> GOARCH h
      \<and> \<not> KnownArch h (''exec:'' @ prog) \<and> \<not> KnownOS h (''exec:'' @ prog))"

text \<open>
  The globals are consistent when no program was looked up twice and every lookup is in
  the cache.
\<close>

definition cache_inv :: "Globals \<Rightarrow> bool" where
  "cache_inv g = (distinct (probes g) \<and> set (probes g) \<subseteq> dom (execCache g))"

text \<open>
  A sequence of evaluations, each with the host and the script of its moment; a fatal
  failure ends its script and leaves the globals as they are.
\<close>

fun conditions ::
  "(Host \<times> ('w TestScript \<Rightarrow> string \<Rightarrow> bool \<times> string option) option \<times> 'w TestScript \<times> string) list
     \<Rightarrow> Globals \<Rightarrow> Globals" where
  "conditions [] g = g"
| "conditions ((h, Condition, ts, cond) # rest) g =
     (case condition h Condition g ts cond of
        Inl a \<Rightarrow> conditions rest g
      | Inr (r, g1) \<Rightarrow> conditions rest g1)"

text \<open>The globals of a process that has evaluated no condition yet.\<close>

definition no_globals :: Globals where
  "no_globals = \<lparr>execCache = Map.empty, probes = []\<rparr>"

text \<open>
  The archive after the updates, as the specification words it: every file whose name
  has an update holds what the update stores, every other file is as it was.
\<close>

definition updated :: "Host \<Rightarrow> (string \<times> string) list \<Rightarrow> File list \<Rightarrow> File list" where
  "updated h ups files =
     map (\<lambda>f. case map_of ups (Name f) of None \<Rightarrow> f | Some c \<Rightarrow> f\<lparr>Data := stored h c\<rparr>) files"

text \<open>An archive with two files of one name, and a script that updates that name.\<close>

definition three_files :: "File list" where
  "three_files =
     [\<lparr>Name = ''want.txt'', Data = ''old''\<rparr>, \<lparr>Name = ''in.txt'', Data = ''input''\<rparr>,
      \<lparr>Name = ''want.txt'', Data = ''older''\<rparr>]"

definition ts_update :: "unit TestScript" where
  "ts_update = (new_script ())\<lparr>archive := three_files, scriptUpdates := [(''want.txt'', ''new'')]\<rparr>"

definition ts_missing :: "unit TestScript" where
  "ts_missing = (new_script ())\<lparr>archive := three_files, scriptUpdates := [(''gone.txt'', ''new'')]\<rparr>"

text \<open>
  A script whose deferred actions note their numbers and whose update of the archive
  names a file that the archive does not have.
\<close>

definition ts_noting :: "nat list TestScript" where
  "ts_noting = (new_script [])\<lparr>archive := three_files, scriptUpdates := [(''gone.txt'', ''new'')]\<rparr>"

text \<open>A wait that finds no background process, and a heading that fills the buffer of the scan.\<close>

definition no_wait :: "'w TestScript \<Rightarrow> (abort \<times> 'w TestScript) + 'w TestScript" where
  "no_wait ts = Inr ts"

definition long_heading :: string where
  "long_heading = replicate maxTokenSize (CHR ''#'')"

text \<open>
  A script of three lines: two directives that each defer an action, and a heading. The
  actions note their numbers in the world.
\<close>

definition long_script :: "string \<Rightarrow> (nat list TestScript \<Rightarrow> (abort \<times> nat list TestScript) + nat list TestScript) list" where
  "long_script heading =
     [defer_command (noting 1), defer_command (noting 2), phase linux_host 0 0 heading]"

text \<open>
  The script at the exit of the process: the two actions deferred, the heading with its
  elapsed time in the transcript, the message of \<^verbatim>\<open>removeGHAnnotation\<close> on standard output.
\<close>

definition ts_exit :: "nat list TestScript" where
  "ts_exit =
     (Defer (noting 2) (Defer (noting 1) (new_script [])))
       \<lparr>log := long_heading @ '' (0.000s)'' @ [NL], mark := length (long_heading @ [NL]), start := None,
          console := ''cannot read buffer: bufio.Scanner: token too long''\<rparr>"

text \<open>The escaping of a message for the annotation.\<close>

definition escape :: "string \<Rightarrow> string" where
  "escape s = ReplaceAll (ReplaceAll s NL ''%0A'') CR ''%0D''"

text \<open>A script that fails on its second line, after a command that printed \<open>hello\<close>.\<close>

definition ts_logged :: "unit TestScript" where
  "ts_logged = (new_script ())\<lparr>lineno := 2,
     log := ''# check'' @ [NL] @ ''> exec hello'' @ [NL] @ ''[stdout]'' @ [NL] @ ''hello'' @ [CR, NL]\<rparr>"

text \<open>
  A script inside a phase: the transcript is what came before the phase, the heading of
  the phase on a line of its own, and what the phase has logged since; the mark is after
  the heading's line, and the phase started when the clock read \<open>t\<close>.
\<close>

definition in_phase :: "'w TestScript \<Rightarrow> string \<Rightarrow> string \<Rightarrow> string \<Rightarrow> nat \<Rightarrow> bool" where
  "in_phase ts pre heading detail t =
     (log ts = pre @ heading @ [NL] @ detail \<and> mark ts = length (pre @ heading @ [NL])
      \<and> start ts = Some t)"

text \<open>The suffix that \<^verbatim>\<open>markTime\<close> puts after a heading.\<close>

definition elapsed :: "Host \<Rightarrow> nat \<Rightarrow> string" where
  "elapsed h d = '' ('' @ Seconds3 h d @ ''s)''"

text \<open>
  A quiet script whose phase \<open># one\<close> logged nothing, and one whose phase ran a command.
\<close>

definition ts_idle :: "unit TestScript" where
  "ts_idle = (new_script ())\<lparr>log := ''# one'' @ [NL], mark := 6, start := Some 0\<rparr>"

definition ts_busy :: "unit TestScript" where
  "ts_busy = (new_script ())\<lparr>log := ''# one'' @ [NL] @ ''> exec true'' @ [NL], mark := 6, start := Some 0\<rparr>"

section \<open>Properties of the environment\<close>

lemma take_IndexByte:
  assumes "IndexByte s c = Some i"
  shows "take i s = takeWhile (\<lambda>x. x \<noteq> c) s"
proof -
  have "i = length (takeWhile (\<lambda>x. x \<noteq> c) s)"
    using assms by (simp add: IndexByte_def split: if_splits)
  then show ?thesis using takeWhile_eq_take [of "\<lambda>x. x \<noteq> c" s] by simp
qed

lemma drop_IndexByte:
  assumes "IndexByte s c = Some i"
  shows "drop (Suc i) s = tl (dropWhile (\<lambda>x. x \<noteq> c) s)"
proof -
  have "i = length (takeWhile (\<lambda>x. x \<noteq> c) s)"
    using assms by (simp add: IndexByte_def split: if_splits)
  then show ?thesis using dropWhile_eq_drop [of "\<lambda>x. x \<noteq> c" s] by (simp add: drop_Suc tl_drop)
qed

lemma IndexByte_None: "IndexByte s c = None \<longleftrightarrow> c \<notin> set s"
  by (simp add: IndexByte_def)

lemma SplitN2_match:
  "env_match h key kv \<Longrightarrow>
   length (SplitN2 kv (CHR ''='')) = 2 \<and> envvarname h (SplitN2 kv (CHR ''='') ! 0) = envvarname h key
   \<and> SplitN2 kv (CHR ''='') ! 1 = tl (dropWhile (\<lambda>x. x \<noteq> CHR ''='') kv)"
proof -
  assume m: "env_match h key kv"
  then have "CHR ''='' \<in> set kv" by (simp add: env_match_def)
  then obtain i where i: "IndexByte kv (CHR ''='') = Some i" by (auto simp: IndexByte_def)
  show ?thesis using m i take_IndexByte [OF i] drop_IndexByte [OF i]
    by (simp add: SplitN2_def env_match_def)
qed

lemma SplitN2_no_match:
  "\<not> env_match h key kv \<Longrightarrow>
   \<not> (length (SplitN2 kv (CHR ''='')) = 2 \<and> envvarname h (SplitN2 kv (CHR ''='') ! 0) = envvarname h key)"
proof (cases "IndexByte kv (CHR ''='')")
  case None
  then show ?thesis by (simp add: SplitN2_def)
next
  case (Some i)
  assume m: "\<not> env_match h key kv"
  have "CHR ''='' \<in> set kv" using Some IndexByte_None [of kv "CHR ''=''"] by auto
  then show ?thesis using m Some take_IndexByte [OF Some] by (simp add: SplitN2_def env_match_def)
qed

lemma Getenv_loop_Suc:
  "Getenv_loop h vars (Suc n) (envvarname h key) =
     (if env_match h key (vars ! n) then tl (dropWhile (\<lambda>x. x \<noteq> CHR ''='') (vars ! n))
      else Getenv_loop h vars n (envvarname h key))"
proof (cases "env_match h key (vars ! n)")
  case True
  show ?thesis using True SplitN2_match [OF True] by (simp add: Let_def)
next
  case False
  show ?thesis using False SplitN2_no_match [OF False] by (auto simp: Let_def)
qed

lemma Getenv_loop_last_match:
  "n \<le> length vars \<Longrightarrow> Getenv_loop h vars n (envvarname h key) = last_match h key (take n vars)"
proof (induction n)
  case 0
  show ?case by (simp add: last_match_def)
next
  case (Suc n)
  then have n: "n < length vars" by simp
  have IH: "Getenv_loop h vars n (envvarname h key) = last_match h key (take n vars)"
    using Suc by simp
  have t: "take (Suc n) vars = take n vars @ [vars ! n]"
    using n by (simp add: take_Suc_conv_app_nth)
  show ?case unfolding Getenv_loop_Suc t using IH by (simp add: last_match_def Let_def)
qed

lemma envMap_of_last_match:
  "map_get (envMap_of h vars m) (envvarname h key) =
     (if filter (env_match h key) vars = [] then map_get m (envvarname h key)
      else last_match h key vars)"
proof (induction vars arbitrary: m)
  case Nil
  show ?case by simp
next
  case (Cons kv rest)
  show ?case
  proof (cases "IndexByte kv (CHR ''='')")
    case None
    then have "\<not> env_match h key kv" using IndexByte_None [of kv "CHR ''=''"] by (simp add: env_match_def)
    then show ?thesis using None Cons [of m] by (simp add: last_match_def Let_def)
  next
    case (Some i)
    then have mem: "CHR ''='' \<in> set kv" using IndexByte_None [of kv "CHR ''=''"] by auto
    let ?m = "m(envvarname h (take i kv) \<mapsto> drop (Suc i) kv)"
    have step: "envMap_of h (kv # rest) m = envMap_of h rest ?m" using Some by simp
    show ?thesis
    proof (cases "env_match h key kv")
      case True
      then have "envvarname h (take i kv) = envvarname h key"
        using take_IndexByte [OF Some] by (simp add: env_match_def)
      then have "map_get ?m (envvarname h key) = tl (dropWhile (\<lambda>x. x \<noteq> CHR ''='') kv)"
        using drop_IndexByte [OF Some] by (simp add: map_get_def)
      then show ?thesis unfolding step Cons [of ?m] using True
        by (simp add: last_match_def Let_def)
    next
      case False
      then have "envvarname h (take i kv) \<noteq> envvarname h key"
        using take_IndexByte [OF Some] mem by (simp add: env_match_def)
      then have "map_get ?m (envvarname h key) = map_get m (envvarname h key)"
        by (simp add: map_get_def)
      then show ?thesis unfolding step Cons [of ?m] using False
        by (simp add: last_match_def Let_def)
    qed
  qed
qed

lemma Env_Getenv_last_match: "Env_Getenv h e key = last_match h key (Vars e)"
  using Getenv_loop_last_match [of "length (Vars e)" "Vars e" h key] by (simp add: Env_Getenv_def)

lemma Getenv_setup_last_match: "Getenv h (setup_env h e ts) key = last_match h key (Vars e)"
  using envMap_of_last_match [of h "Vars e" Map.empty key]
  by (simp add: Getenv_def setup_env_def last_match_def map_get_def Let_def)

lemma last_match_shadowing: "last_match linux_host ''X'' [''X=1'', ''X=2''] = ''2''"
  by (simp add: last_match_def env_match_def linux_host_def)

lemma last_match_windows: "last_match (linux_host\<lparr>envvarname := envvarname_windows\<rparr>) ''path'' [''Path=1'', ''PATH=2'', ''Q=3''] = ''2''"
  by code_simp

lemma dropWhile_neq_append: "c \<notin> set k \<Longrightarrow> dropWhile (\<lambda>x. x \<noteq> c) (k @ c # v) = c # v"
  by (induction k) auto

lemma takeWhile_neq_append: "c \<notin> set k \<Longrightarrow> takeWhile (\<lambda>x. x \<noteq> c) (k @ c # v) = k"
  by (induction k) auto

lemma setup_env_consistent: "env_consistent h (setup_env h e ts)"
  using Getenv_setup_last_match [of h e ts] by (simp add: env_consistent_def setup_env_def)

lemma Setenv_consistent:
  assumes "CHR ''='' \<notin> set k" and "env_consistent h ts"
  shows "env_consistent h (Setenv h ts k v)"
proof -
  have m: "\<And>key. env_match h key (k @ ''='' @ v) = (envvarname h k = envvarname h key)"
    using assms(1) by (simp add: env_match_def takeWhile_neq_append)
  have val: "tl (dropWhile (\<lambda>x. x \<noteq> CHR ''='') (k @ ''='' @ v)) = v"
    using assms(1) by (simp add: dropWhile_neq_append)
  have "\<And>key. Getenv h (Setenv h ts k v) key = last_match h key (env (Setenv h ts k v))"
  proof -
    fix key
    have old: "Getenv h ts key = last_match h key (env ts)"
      using assms(2) by (simp add: env_consistent_def)
    show "Getenv h (Setenv h ts k v) key = last_match h key (env (Setenv h ts k v))"
    proof (cases "envvarname h k = envvarname h key")
      case True
      then show ?thesis using m [of key] val
        by (simp add: Getenv_def Setenv_def map_get_def last_match_def Let_def)
    next
      case False
      then have "Getenv h (Setenv h ts k v) key = Getenv h ts key"
        by (auto simp: Getenv_def Setenv_def map_get_def)
      then show ?thesis using False m [of key] old
        by (simp add: Setenv_def last_match_def Let_def)
    qed
  qed
  then show ?thesis by (simp add: env_consistent_def)
qed

lemma Setenv_reads:
  "Getenv h (Setenv h ts k v) k = v"
  by (simp add: Getenv_def Setenv_def map_get_def)

text \<open>
  Claim C6. The lookup of a key in the environment is the last match in the ordered list of
  \<open>KEY=VALUE\<close> pairs, for the environment of the setup hook (\<^verbatim>\<open>Env.Getenv\<close>) and for the
  script's own lookup through its map (\<^verbatim>\<open>TestScript.Getenv\<close>), which matches the list
  after \<^verbatim>\<open>setup\<close> and after every \<^verbatim>\<open>Setenv\<close> of a key without \<open>=\<close>, so that a pair
  appended later shadows the earlier ones. Keys are compared after \<open>envvarname\<close>, which
  folds case where the platform requires it; with \<open>X=1\<close> before \<open>X=2\<close> the lookup of \<open>X\<close>
  is \<open>2\<close>; a key without a match reads as the empty string.
\<close>

theorem getenv_last_match_wins:
  "Env_Getenv h e key = last_match h key (Vars e)
   \<and> Getenv h (setup_env h e ts) key = last_match h key (Vars e)
   \<and> env_consistent h (setup_env h e ts)
   \<and> (CHR ''='' \<notin> set k \<and> env_consistent h ts \<longrightarrow>
        env_consistent h (Setenv h ts k v) \<and> Getenv h (Setenv h ts k v) k = v)
   \<and> Getenv linux_host (setup_env linux_host \<lparr>WorkDir = [], Vars = [''X=1'', ''X=2''], Cd = []\<rparr> ts) ''X'' = ''2''
   \<and> Env_Getenv linux_host \<lparr>WorkDir = [], Vars = [''X=1'', ''X=2''], Cd = []\<rparr> ''X'' = ''2''
   \<and> Env_Getenv (linux_host\<lparr>envvarname := envvarname_windows\<rparr>)
        \<lparr>WorkDir = [], Vars = [''Path=1'', ''PATH=2'', ''Q=3''], Cd = []\<rparr> ''path'' = ''2''
   \<and> Env_Getenv h \<lparr>WorkDir = [], Vars = [], Cd = []\<rparr> key = []"
proof -
  have s: "CHR ''='' \<notin> set k \<and> env_consistent h ts \<longrightarrow>
        env_consistent h (Setenv h ts k v) \<and> Getenv h (Setenv h ts k v) k = v"
    using Setenv_consistent Setenv_reads by blast
  have x: "Env_Getenv h e key = last_match h key (Vars e)
   \<and> Getenv h (setup_env h e ts) key = last_match h key (Vars e)
   \<and> Getenv linux_host (setup_env linux_host \<lparr>WorkDir = [], Vars = [''X=1'', ''X=2''], Cd = []\<rparr> ts) ''X'' = ''2''
   \<and> Env_Getenv linux_host \<lparr>WorkDir = [], Vars = [''X=1'', ''X=2''], Cd = []\<rparr> ''X'' = ''2''
   \<and> Env_Getenv (linux_host\<lparr>envvarname := envvarname_windows\<rparr>)
        \<lparr>WorkDir = [], Vars = [''Path=1'', ''PATH=2'', ''Q=3''], Cd = []\<rparr> ''path'' = ''2''
   \<and> Env_Getenv h \<lparr>WorkDir = [], Vars = [], Cd = []\<rparr> key = []"
    unfolding Env_Getenv_last_match Getenv_setup_last_match
    using last_match_shadowing last_match_windows by (simp add: last_match_def)
  show ?thesis using s x setup_env_consistent by blast
qed

theorem getenv_last_match_wins_witness:
  "CHR ''='' \<notin> set ''X'' \<and> env_consistent linux_host (setup_env linux_host env0 (new_script ()))
   \<and> env_consistent linux_host (Setenv linux_host (setup_env linux_host env0 (new_script ())) ''X'' ''3'')
   \<and> env (Setenv linux_host (setup_env linux_host env0 (new_script ())) ''X'' ''3'') = [''WORK=/tmp/work'', ''X=3'']
   \<and> Getenv linux_host (Setenv linux_host (setup_env linux_host env0 (new_script ())) ''X'' ''3'') ''X'' = ''3''
   \<and> Getenv linux_host (Setenv linux_host (setup_env linux_host env0 (new_script ())) ''X'' ''3'') ''WORK'' = ''/tmp/work''"
proof -
  let ?ts = "setup_env linux_host env0 (new_script ())"
  have c0: "env_consistent linux_host ?ts"
    using getenv_last_match_wins [of linux_host env0 "''X''" "new_script ()" "''X''" "''3''"] by blast
  have c1: "env_consistent linux_host (Setenv linux_host ?ts ''X'' ''3'')"
    and g: "Getenv linux_host (Setenv linux_host ?ts ''X'' ''3'') ''X'' = ''3''"
    using getenv_last_match_wins [of linux_host env0 "''X''" ?ts "''X''" "''3''"] c0 by simp_all
  have e: "env (Setenv linux_host ?ts ''X'' ''3'') = [''WORK=/tmp/work'', ''X=3'']"
    by (simp add: Setenv_def setup_env_def env0_def)
  have "Getenv linux_host (Setenv linux_host ?ts ''X'' ''3'') ''WORK''
      = last_match linux_host ''WORK'' [''WORK=/tmp/work'', ''X=3'']"
    using c1 e by (simp add: env_consistent_def)
  then have w: "Getenv linux_host (Setenv linux_host ?ts ''X'' ''3'') ''WORK'' = ''/tmp/work''"
    by (simp add: last_match_def env_match_def linux_host_def)
  show ?thesis using c0 c1 e g w by simp
qed

section \<open>Properties of the argument grammar\<close>









lemma Expand_loop_plain:
  "CHR ''$'' \<notin> set s \<Longrightarrow> Expand_loop m s j i None = s"
proof (induction "length s - j" arbitrary: j rule: less_induct)
  case less
  show ?case
  proof (cases "j < length s")
    case False
    then show ?thesis by (subst Expand_loop.simps) simp
  next
    case True
    then have "s ! j \<noteq> CHR ''$''" using less(2) nth_mem by metis
    then have "Expand_loop m s j i None = Expand_loop m s (j + 1) i None"
      using True by (subst Expand_loop.simps) simp
    then show ?thesis using less(1) [of "j + 1"] less(2) True by simp
  qed
qed

lemma expand_plain: "CHR ''$'' \<notin> set s \<Longrightarrow> expand h ts s = s"
  by (simp add: expand_def Expand_def Expand_loop_plain)

lemma TrimSuffix_R: "TrimSuffix (name @ ''@R'') ''@R'' = name"
  by (simp add: TrimSuffix_def HasSuffix_def)

lemma mapping_R: "expand_mapping h ts (name @ ''@R'') = QuoteMeta (Getenv h ts name)"
  by (simp add: expand_mapping_def TrimSuffix_R Let_def)

lemma mapping_raw: "\<not> HasSuffix key ''@R'' \<Longrightarrow> expand_mapping h ts key = Getenv h ts key"
  by (simp add: expand_mapping_def TrimSuffix_def Let_def)

lemma IndexByte_append: "c \<notin> set k \<Longrightarrow> IndexByte (k @ c # v) c = Some (length k)"
  by (induction k) (auto simp: IndexByte_def)

lemma getShellName_braces:
  assumes "CHR ''}'' \<notin> set name" and "name \<noteq> []"
  shows "getShellName (CHR ''{'' # name @ CHR ''}'' # rest) = (name, length name + 2)"
proof (cases "length name = 1")
  case True
  then obtain c where c: "name = [c]" by (cases name) auto
  show ?thesis using assms(1) by (auto simp: c getShellName_def slice_def IndexByte_def)
next
  case False
  then obtain c d more where c: "name = c # d # more" using assms(2)
    by (cases name; cases "tl name") auto
  have "IndexByte (name @ CHR ''}'' # rest) (CHR ''}'') = Some (length name)"
    using IndexByte_append [OF assms(1)] .
  then show ?thesis using assms(1) by (auto simp: c getShellName_def slice_def)
qed

lemma Expand_braces:
  assumes "CHR ''}'' \<notin> set name" and "name \<noteq> []"
  shows "Expand (''${'' @ name @ ''}'') m = m name"
proof -
  let ?s = "''${'' @ name @ ''}''"
  have g: "getShellName (drop (0 + 1) ?s) = (name, length name + 2)"
    using getShellName_braces [OF assms, of "[]"] by simp
  have l: "length ?s = length name + 3" by simp
  have "Expand_loop m ?s 0 0 None = Expand_loop m ?s (0 + (length name + 2) + 1) (0 + (length name + 2) + 1) (Some (m name))"
    apply (subst Expand_loop.simps)
    apply (simp only: g l Let_def split)
    using assms(2) apply (simp add: slice_def)
    done
  also have "\<dots> = m name"
    by (subst Expand_loop.simps) simp
  finally show ?thesis by (simp add: Expand_def)
qed

lemma expand_R:
  assumes "CHR ''}'' \<notin> set name"
  shows "expand h ts (''${'' @ name @ ''@R}'') = QuoteMeta (Getenv h ts name)"
proof -
  have "Expand (''${'' @ (name @ ''@R'') @ ''}'') (expand_mapping h ts) = expand_mapping h ts (name @ ''@R'')"
    using assms by (intro Expand_braces) auto
  then show ?thesis by (simp add: expand_def mapping_R)
qed

lemma expand_raw:
  assumes "CHR ''}'' \<notin> set name" and "name \<noteq> []" and "\<not> HasSuffix name ''@R''"
  shows "expand h ts (''${'' @ name @ ''}'') = Getenv h ts name"
  using Expand_braces [OF assms(1,2)] mapping_raw [OF assms(3)] by (simp add: expand_def)

lemma expand_unbraced: "expand h ts ''$X@R'' = Getenv h ts ''X'' @ ''@R''"
  unfolding expand_def Expand_def
  by code_simp

lemma parse_loop_quoted_scan:
  "SQ \<notin> set s \<Longrightarrow> i \<le> length s \<Longrightarrow>
   parse_loop ex (SQ # s @ [SQ]) (Suc i) args arg 1 True = Inr (args @ [arg @ s @ ex []])"
proof (induction "length s - i" arbitrary: i rule: less_induct)
  case less
  let ?ln = "SQ # s @ [SQ]"
  show ?case
  proof (cases "i < length s")
    case True
    have "s ! i \<in> set s" using True by simp
    then have "s ! i \<noteq> SQ" using less(2) by metis
    then have c: "?ln ! Suc i \<noteq> SQ" using True by (simp add: nth_append)
    have "parse_loop ex ?ln (Suc i) args arg 1 True = parse_loop ex ?ln (Suc i + 1) args arg 1 True"
      using c True by (subst parse_loop.simps) simp
    then show ?thesis using less(1) [of "Suc i"] less(2) True by simp
  next
    case False
    then have i: "i = length s" using less(3) by simp
    have c: "?ln ! Suc i = SQ" by (simp add: i nth_append)
    have "parse_loop ex ?ln (Suc i) args arg 1 True =
        parse_loop ex ?ln (Suc i + 1) args (arg @ slice ?ln (nat 1) (Suc i)) (int (Suc i) + 1) False"
      using c by (subst parse_loop.simps) (simp add: i)
    also have "\<dots> = Inr (args @ [arg @ s @ ex []])"
      by (subst parse_loop.simps) (simp add: i slice_def)
    finally show ?thesis .
  qed
qed

lemma parse_loop_quoted:
  assumes "SQ \<notin> set s"
  shows "parse_loop ex (SQ # s @ [SQ]) 0 [] [] (- 1) False = Inr [s @ ex []]"
proof -
  have "parse_loop ex (SQ # s @ [SQ]) 0 [] [] (- 1) False =
      parse_loop ex (SQ # s @ [SQ]) (0 + 1) [] [] (int 0 + 1) True"
    by (subst parse_loop.simps) simp
  then show ?thesis using parse_loop_quoted_scan [OF assms, of 0 ex "[]" "[]"] by simp
qed

lemma expand_empty: "expand h ts [] = []"
  by (simp add: expand_plain)




lemma parse_example_reference:
  "parse_loop ex ''${X@R}'' 0 [] [] (- 1) False = Inr [ex ''${X@R}'']"
  by code_simp

lemma Fatalf_flags: "stopped (Fatalf h msg ts) \<and> failed (Fatalf h msg ts) \<and> cancelled (Fatalf h msg ts)"
  by (simp add: Fatalf_def addGHAnnotation_def Let_def)








text \<open>
  Claim C8. In the expansion of an argument, a reference whose name ends in \<open>@R\<close>, as in
  \<open>${name@R}\<close>, is replaced by the value of the variable \<open>name\<close> with the characters that
  are special in a pattern escaped, and a reference without the suffix by the value as it
  is. The rewriting belongs to the expansion only: text inside single quotes is not
  expanded and keeps the reference as written, and without braces the suffix is not part
  of the name.
\<close>

theorem expand_regex_suffix:
  "expand_mapping h ts (name @ ''@R'') = QuoteMeta (Getenv h ts name)
   \<and> (\<not> HasSuffix key ''@R'' \<longrightarrow> expand_mapping h ts key = Getenv h ts key)
   \<and> (CHR ''}'' \<notin> set name \<longrightarrow>
        expand h ts (''${'' @ name @ ''@R}'') = QuoteMeta (Getenv h ts name))
   \<and> (CHR ''}'' \<notin> set name \<and> name \<noteq> [] \<and> \<not> HasSuffix name ''@R'' \<longrightarrow>
        expand h ts (''${'' @ name @ ''}'') = Getenv h ts name)
   \<and> expand h ts ''$X@R'' = Getenv h ts ''X'' @ ''@R''
   \<and> parse h ts ''${X@R}'' = Inr ([QuoteMeta (Getenv h ts ''X'')], ts\<lparr>line := ''${X@R}''\<rparr>)
   \<and> (SQ \<notin> set s \<longrightarrow> parse h ts (SQ # s @ [SQ]) = Inr ([s], ts\<lparr>line := SQ # s @ [SQ]\<rparr>))"
proof -
  have a: "CHR ''}'' \<notin> set name \<longrightarrow>
        expand h ts (''${'' @ name @ ''@R}'') = QuoteMeta (Getenv h ts name)"
    using expand_R by blast
  have b: "CHR ''}'' \<notin> set name \<and> name \<noteq> [] \<and> \<not> HasSuffix name ''@R'' \<longrightarrow>
        expand h ts (''${'' @ name @ ''}'') = Getenv h ts name"
    using expand_raw by blast
  have c: "parse h ts ''${X@R}'' = Inr ([QuoteMeta (Getenv h ts ''X'')], ts\<lparr>line := ''${X@R}''\<rparr>)"
    using expand_R [of "''X''" h "ts\<lparr>line := ''${X@R}''\<rparr>"]
    by (simp add: parse_def Let_def parse_example_reference Getenv_def)
  have d: "SQ \<notin> set s \<longrightarrow> parse h ts (SQ # s @ [SQ]) = Inr ([s], ts\<lparr>line := SQ # s @ [SQ]\<rparr>)"
    by (simp add: parse_def Let_def parse_loop_quoted expand_empty)
  show ?thesis using mapping_R mapping_raw a b c d expand_unbraced by blast
qed

lemma tsx_X: "Getenv linux_host tsx ''X'' = ''a.b''"
  by (simp add: tsx_def Getenv_def Setenv_def map_get_def linux_host_def)

theorem expand_regex_suffix_witness:
  "\<not> HasSuffix ''X'' ''@R'' \<and> expand_mapping linux_host tsx ''X'' = ''a.b''
   \<and> CHR ''}'' \<notin> set ''X'' \<and> ''X'' \<noteq> []
   \<and> expand linux_host tsx ''${X@R}'' = [CHR ''a'', BSL, CHR ''.'', CHR ''b'']
   \<and> expand linux_host tsx ''${X}'' = ''a.b''
   \<and> SQ \<notin> set ''${X@R}''
   \<and> parse linux_host tsx (SQ # ''${X@R}'' @ [SQ]) = Inr ([''${X@R}''], tsx\<lparr>line := SQ # ''${X@R}'' @ [SQ]\<rparr>)"
  using expand_regex_suffix [of linux_host tsx "''X''" "''X''" "''${X@R}''"] tsx_X
  by (simp add: HasSuffix_def QuoteMeta_def special_def)

section \<open>Properties of running commands\<close>

lemma exec_built:
  "buildExecCmd h ts command args = Inr bc \<Longrightarrow> snd (exec h ts command args) = ts\<lparr>stdin := []\<rparr>"
  by (simp add: exec_def Let_def split: prod.splits)

lemma exec_not_built:
  "buildExecCmd h ts command args = Inl err \<Longrightarrow> exec h ts command args = (([], [], Some err), ts)"
  by (simp add: exec_def)

lemma execBackground_built:
  "buildExecCmd h ts command args = Inr bc \<Longrightarrow> snd (execBackground h ts command args) = ts\<lparr>stdin := []\<rparr>"
  by (simp add: execBackground_def Let_def split: prod.splits)

lemma execBackground_not_built:
  "buildExecCmd h ts command args = Inl err \<Longrightarrow> execBackground h ts command args = ((None, Some err), ts)"
  by (simp add: execBackground_def)

lemma execBackground_Stdin:
  "fst (execBackground h ts command args) = (Some c, e) \<Longrightarrow> Stdin c = stdin ts"
  by (auto simp: execBackground_def Let_def split: sum.splits prod.splits)

lemma Exec_log:
  "exec h ts command args = ((out, err, e), ts1) \<Longrightarrow>
   log (snd (Exec h ts command args))
     = log ts1 @ (if out \<noteq> [] then ''[stdout]'' @ [NL] @ out @ [NL] else [])
         @ (if err \<noteq> [] then ''[stderr]'' @ [NL] @ err @ [NL] else [])"
  by (simp add: Exec_def Logf_def Let_def)

lemma exec_launched:
  "buildExecCmd h ts command args = Inr (ctx, c0) \<Longrightarrow>
   fst (exec h ts command args)
     = (case Start h (launched ts c0) of
          Some e \<Rightarrow> ([], [], Some e)
        | None \<Rightarrow> Wait h ctx (launched ts c0))"
  by (simp add: exec_def launched_def Let_def split: option.splits)

lemma execBackground_launched:
  "buildExecCmd h ts command args = Inr (ctx, c0) \<Longrightarrow>
   fst (execBackground h ts command args) = (Some (launched ts c0), Start h (launched ts c0))"
  by (simp add: execBackground_def launched_def Let_def)

lemma Getenv_stdin: "Getenv h (ts\<lparr>stdin := s\<rparr>) = Getenv h ts"
  by (rule ext) (simp add: Getenv_def)

lemma buildExecCmd_stdin: "buildExecCmd h (ts\<lparr>stdin := s\<rparr>) command args = buildExecCmd h ts command args"
  by (simp add: buildExecCmd_def Getenv_stdin)

text \<open>
  Claim C10, as the code has it. When the command can be built (its program is found on
  the search path), \<^verbatim>\<open>exec\<close> and \<^verbatim>\<open>execBackground\<close> hand the stored standard input to the
  command and reset it to the empty string, also when starting the command fails: the
  command that \<^verbatim>\<open>exec\<close> starts and waits for, and the one that \<^verbatim>\<open>execBackground\<close> starts
  and returns, is the command that was built with the directory, the environment and the
  stored standard input of the script, and a launch that follows is handed the empty
  input. When the command cannot be built, they return the error and leave the script as
  it is, the stored standard input included. In both cases no other field of the script
  changes.
\<close>

theorem exec_resets_stdin:
  "(buildExecCmd h ts command args = Inr bc \<longrightarrow>
      snd (exec h ts command args) = ts\<lparr>stdin := []\<rparr>
      \<and> snd (execBackground h ts command args) = ts\<lparr>stdin := []\<rparr>)
   \<and> (buildExecCmd h ts command args = Inl err \<longrightarrow>
      exec h ts command args = (([], [], Some err), ts)
      \<and> execBackground h ts command args = ((None, Some err), ts))
   \<and> (fst (execBackground h ts command args) = (Some c, e) \<longrightarrow> Stdin c = stdin ts)
   \<and> (buildExecCmd h ts command args = Inr (ctx, c0) \<longrightarrow>
      fst (exec h ts command args)
        = (case Start h (launched ts c0) of
             Some e \<Rightarrow> ([], [], Some e)
           | None \<Rightarrow> Wait h ctx (launched ts c0))
      \<and> fst (execBackground h ts command args) = (Some (launched ts c0), Start h (launched ts c0))
      \<and> Stdin (launched ts c0) = stdin ts
      \<and> fst (exec h (snd (exec h ts command args)) command args)
        = (case Start h (launched (ts\<lparr>stdin := []\<rparr>) c0) of
             Some e \<Rightarrow> ([], [], Some e)
           | None \<Rightarrow> Wait h ctx (launched (ts\<lparr>stdin := []\<rparr>) c0))
      \<and> fst (execBackground h (snd (execBackground h ts command args)) command args)
        = (Some (launched (ts\<lparr>stdin := []\<rparr>) c0), Start h (launched (ts\<lparr>stdin := []\<rparr>) c0))
      \<and> Stdin (launched (ts\<lparr>stdin := []\<rparr>) c0) = [])"
proof -
  have next_launch: "buildExecCmd h ts command args = Inr (ctx, c0) \<longrightarrow>
      fst (exec h (snd (exec h ts command args)) command args)
        = (case Start h (launched (ts\<lparr>stdin := []\<rparr>) c0) of
             Some e \<Rightarrow> ([], [], Some e)
           | None \<Rightarrow> Wait h ctx (launched (ts\<lparr>stdin := []\<rparr>) c0))
      \<and> fst (execBackground h (snd (execBackground h ts command args)) command args)
        = (Some (launched (ts\<lparr>stdin := []\<rparr>) c0), Start h (launched (ts\<lparr>stdin := []\<rparr>) c0))"
  proof
    assume b: "buildExecCmd h ts command args = Inr (ctx, c0)"
    have b1: "buildExecCmd h (ts\<lparr>stdin := []\<rparr>) command args = Inr (ctx, c0)"
      using b by (simp add: buildExecCmd_stdin)
    show "fst (exec h (snd (exec h ts command args)) command args)
        = (case Start h (launched (ts\<lparr>stdin := []\<rparr>) c0) of
             Some e \<Rightarrow> ([], [], Some e)
           | None \<Rightarrow> Wait h ctx (launched (ts\<lparr>stdin := []\<rparr>) c0))
      \<and> fst (execBackground h (snd (execBackground h ts command args)) command args)
        = (Some (launched (ts\<lparr>stdin := []\<rparr>) c0), Start h (launched (ts\<lparr>stdin := []\<rparr>) c0))"
      using exec_launched [OF b1] execBackground_launched [OF b1]
      by (simp add: exec_built [OF b] execBackground_built [OF b])
  qed
  have s: "Stdin (launched ts c0) = stdin ts \<and> Stdin (launched (ts\<lparr>stdin := []\<rparr>) c0) = []"
    by (simp add: launched_def)
  show ?thesis
    using next_launch s
    by (intro conjI impI)
      (simp_all add: exec_built exec_not_built execBackground_built execBackground_not_built
         execBackground_Stdin exec_launched execBackground_launched)
qed

lemma built_broken: "buildExecCmd broken_host ts_stdin ''cat'' [] = Inr (None, Command ''/bin/cat'' [])"
  by (simp add: buildExecCmd_def broken_host_def linux_host_def andThen_def)

lemma built_cat: "buildExecCmd cat_host ts_stdin ''cat'' [] = Inr (None, Command ''/bin/cat'' [])"
  by (simp add: buildExecCmd_def cat_host_def linux_host_def andThen_def)

lemma not_built_linux:
  "buildExecCmd linux_host ts_stdin ''cat'' [] = Inl ''executable file not found in $PATH''"
  by (simp add: buildExecCmd_def linux_host_def andThen_def)

theorem exec_resets_stdin_witness:
  "buildExecCmd broken_host ts_stdin ''cat'' [] = Inr (None, Command ''/bin/cat'' [])
   \<and> Start broken_host (Command ''/bin/cat'' []) = Some ''fork failed''
   \<and> stdin (snd (exec broken_host ts_stdin ''cat'' [])) = []
   \<and> stdin (snd (execBackground broken_host ts_stdin ''cat'' [])) = []
   \<and> buildExecCmd linux_host ts_stdin ''cat'' [] = Inl ''executable file not found in $PATH''
   \<and> snd (exec linux_host ts_stdin ''cat'' []) = ts_stdin
   \<and> snd (execBackground linux_host ts_stdin ''cat'' []) = ts_stdin
   \<and> fst (execBackground broken_host ts_stdin ''cat'' [])
       = (Some (Command ''/bin/cat'' []\<lparr>Dir := ''/tmp/work'', Environ := [''PWD=/tmp/work''], Stdin := ''data''\<rparr>),
          Some ''fork failed'')
   \<and> Stdin (Command ''/bin/cat'' []\<lparr>Dir := ''/tmp/work'', Environ := [''PWD=/tmp/work''], Stdin := ''data''\<rparr>)
       = stdin ts_stdin
   \<and> buildExecCmd cat_host ts_stdin ''cat'' [] = Inr (None, Command ''/bin/cat'' [])
   \<and> fst (exec cat_host ts_stdin ''cat'' []) = (''data'', [], None)
   \<and> fst (exec cat_host (snd (exec cat_host ts_stdin ''cat'' [])) ''cat'' []) = ([], [], None)
   \<and> fst (execBackground cat_host ts_stdin ''cat'' [])
       = (Some (Command ''/bin/cat'' []\<lparr>Dir := ''/tmp/work'', Environ := [''PWD=/tmp/work''], Stdin := ''data''\<rparr>), None)
   \<and> fst (execBackground cat_host (snd (execBackground cat_host ts_stdin ''cat'' [])) ''cat'' [])
       = (Some (Command ''/bin/cat'' []\<lparr>Dir := ''/tmp/work'', Environ := [''PWD=/tmp/work''], Stdin := []\<rparr>), None)"
proof -
  have f: "fst (execBackground broken_host ts_stdin ''cat'' [])
       = (Some (Command ''/bin/cat'' []\<lparr>Dir := ''/tmp/work'', Environ := [''PWD=/tmp/work''], Stdin := ''data''\<rparr>),
          Some ''fork failed'')"
    unfolding execBackground_def built_broken
    by (simp add: Let_def ts_stdin_def new_script_def broken_host_def)
  have l: "launched ts_stdin (Command ''/bin/cat'' [])
      = Command ''/bin/cat'' []\<lparr>Dir := ''/tmp/work'', Environ := [''PWD=/tmp/work''], Stdin := ''data''\<rparr>"
    by (simp add: launched_def ts_stdin_def new_script_def)
  have l0: "launched (ts_stdin\<lparr>stdin := []\<rparr>) (Command ''/bin/cat'' [])
      = Command ''/bin/cat'' []\<lparr>Dir := ''/tmp/work'', Environ := [''PWD=/tmp/work''], Stdin := []\<rparr>"
    by (simp add: launched_def ts_stdin_def new_script_def)
  have c: "Start cat_host = (\<lambda>c. None) \<and> Wait cat_host = (\<lambda>ctx c. (Stdin c, [], None))"
    by (simp add: cat_host_def linux_host_def)
  have cat: "fst (exec cat_host ts_stdin ''cat'' []) = (''data'', [], None)
      \<and> fst (exec cat_host (snd (exec cat_host ts_stdin ''cat'' [])) ''cat'' []) = ([], [], None)
      \<and> fst (execBackground cat_host ts_stdin ''cat'' [])
          = (Some (Command ''/bin/cat'' []\<lparr>Dir := ''/tmp/work'', Environ := [''PWD=/tmp/work''], Stdin := ''data''\<rparr>), None)
      \<and> fst (execBackground cat_host (snd (execBackground cat_host ts_stdin ''cat'' [])) ''cat'' [])
          = (Some (Command ''/bin/cat'' []\<lparr>Dir := ''/tmp/work'', Environ := [''PWD=/tmp/work''], Stdin := []\<rparr>), None)"
    using exec_resets_stdin [of cat_host ts_stdin "''cat''" "[]" _ _ _ _ None "Command ''/bin/cat'' []",
        THEN conjunct2, THEN conjunct2, THEN conjunct2, THEN mp, OF built_cat]
    by (simp add: l l0 c)
  have B: "snd (exec broken_host ts_stdin ''cat'' []) = ts_stdin\<lparr>stdin := []\<rparr>
      \<and> snd (execBackground broken_host ts_stdin ''cat'' []) = ts_stdin\<lparr>stdin := []\<rparr>"
    using exec_resets_stdin [of broken_host ts_stdin "''cat''" "[]" "(None, Command ''/bin/cat'' [])",
        THEN conjunct1, THEN mp, OF built_broken] .
  have L: "exec linux_host ts_stdin ''cat'' [] = (([], [], Some ''executable file not found in $PATH''), ts_stdin)
      \<and> execBackground linux_host ts_stdin ''cat'' [] = ((None, Some ''executable file not found in $PATH''), ts_stdin)"
    using exec_resets_stdin [of linux_host ts_stdin "''cat''" "[]" _ "''executable file not found in $PATH''",
        THEN conjunct2, THEN conjunct1, THEN mp, OF not_built_linux] .
  have S: "Stdin (Command ''/bin/cat'' []\<lparr>Dir := ''/tmp/work'', Environ := [''PWD=/tmp/work''], Stdin := ''data''\<rparr>)
      = stdin ts_stdin"
    using exec_resets_stdin [of broken_host ts_stdin "''cat''" "[]",
        THEN conjunct2, THEN conjunct2, THEN conjunct1, THEN mp, OF f] .
  have st: "Start broken_host (Command ''/bin/cat'' []) = Some ''fork failed''"
    by (simp add: broken_host_def)
  have B1: "stdin (snd (exec broken_host ts_stdin ''cat'' [])) = []"
    using B by simp
  have B2: "stdin (snd (execBackground broken_host ts_stdin ''cat'' [])) = []"
    using B by simp
  have L1: "snd (exec linux_host ts_stdin ''cat'' []) = ts_stdin"
    using L by simp
  have L2: "snd (execBackground linux_host ts_stdin ''cat'' []) = ts_stdin"
    using L by simp
  show ?thesis
    using built_broken st B1 B2 not_built_linux L1 L2 f S built_cat cat by (intro conjI) (simp_all only:)
qed

theorem exec_keeps_stdin_counterexample:
  "stdin (snd (exec linux_host ts_stdin ''cat'' [])) = ''data''
   \<and> stdin (snd (exec linux_host ts_stdin ''cat'' [])) \<noteq> []
   \<and> stdin (snd (execBackground linux_host ts_stdin ''cat'' [])) = ''data''
   \<and> stdin (snd (execBackground linux_host ts_stdin ''cat'' [])) \<noteq> []"
  using exec_not_built [OF not_built_linux] execBackground_not_built [OF not_built_linux]
  by (simp add: ts_stdin_def)

section \<open>Properties of setting a variable\<close>

lemma Env_Setenv_invalid:
  "key = [] \<or> CHR ''='' \<in> set key \<Longrightarrow>
   Env_Setenv h e key v = Inl (Panic (''invalid environment variable key '' @ Quoteq h key))"
  by (auto simp: Env_Setenv_def IndexByte_def)

lemma Env_Setenv_valid:
  "key \<noteq> [] \<Longrightarrow> CHR ''='' \<notin> set key \<Longrightarrow>
   Env_Setenv h e key v = Inr (e\<lparr>Vars := Vars e @ [key @ ''='' @ v]\<rparr>)"
  by (auto simp: Env_Setenv_def IndexByte_def)

text \<open>
  Claim C4, at its failing input. \<^verbatim>\<open>Env.Setenv\<close> panics on the key \<open>a=b\<close> and on the empty
  key. \<^verbatim>\<open>TestScript.Setenv\<close> takes both: it appends the pair to the list and stores the key
  in the map, so that the list and the map no longer agree on the variable \<open>a\<close>.
\<close>

theorem Setenv_takes_invalid_key:
  "Env_Setenv linux_host env0 ''a=b'' ''c'' = Inl (Panic (''invalid environment variable key '' @ Quoteq linux_host ''a=b''))
   \<and> Env_Setenv linux_host env0 [] ''c'' = Inl (Panic (''invalid environment variable key '' @ Quoteq linux_host []))
   \<and> env (Setenv linux_host (new_script ()) ''a=b'' ''c'') = [''a=b=c'']
   \<and> envMap (Setenv linux_host (new_script ()) ''a=b'' ''c'') ''a=b'' = Some ''c''
   \<and> envMap (Setenv linux_host (new_script ()) ''a=b'' ''c'') ''a'' = None
   \<and> last_match linux_host ''a'' (env (Setenv linux_host (new_script ()) ''a=b'' ''c'')) = ''b=c''
   \<and> env (Setenv linux_host (new_script ()) [] ''c'') = [''=c'']
   \<and> envMap (Setenv linux_host (new_script ()) [] ''c'') [] = Some ''c''"
  by (simp add: Env_Setenv_invalid Setenv_def new_script_def linux_host_def last_match_def env_match_def)

section \<open>Properties of the deferred actions\<close>

lemma deferred_Defer:
  "fst (deferred (Defer f ts) w) = fst (deferred ts (fst (f w)))"
  by (simp add: Defer_def Let_def split: prod.splits)

lemma deferred_fold_Defer:
  "fst (deferred (fold Defer fs ts) w) = fst (deferred ts (foldr (\<lambda>f w. fst (f w)) fs w))"
proof (induction fs arbitrary: ts w rule: rev_induct)
  case Nil
  show ?case by simp
next
  case (snoc f fs)
  show ?case by (simp add: deferred_Defer snoc)
qed

lemma Defer_frame: "stopped (Defer f ts) = stopped ts \<and> world (Defer f ts) = world ts"
  by (simp add: Defer_def Let_def)

lemma fold_Defer_frame: "stopped (fold Defer fs ts) = stopped ts \<and> world (fold Defer fs ts) = world ts"
  by (induction fs arbitrary: ts) (simp_all add: Defer_frame)

lemma run_commands_defers:
  "\<not> stopped ts \<Longrightarrow> run_commands (map defer_command fs @ cs) ts = run_commands cs (fold Defer fs ts)"
proof (induction fs arbitrary: ts)
  case Nil
  show ?case by simp
next
  case (Cons f fs)
  have "\<not> stopped (Defer f ts)" using Cons.prems by (simp add: Defer_frame)
  then show ?case using Cons.IH [of "Defer f ts"] by (simp add: defer_command_def)
qed

lemma foldr_noting: "foldr (\<lambda>f w. fst (f w)) (map noting ns) tr = tr @ rev ns"
  by (induction ns arbitrary: tr) (simp_all add: noting_def)

lemma Fatalf_frame: "deferred (Fatalf h msg ts) = deferred ts \<and> world (Fatalf h msg ts) = world ts"
  by (simp add: Fatalf_def addGHAnnotation_def Let_def)

lemma applyScriptUpdates_frame:
  "(case applyScriptUpdates h ts of Inl (a, t) \<Rightarrow> (Some a, t) | Inr t \<Rightarrow> (None, t)) = (a2, ts2) \<Longrightarrow>
   deferred ts2 = deferred ts \<and> world ts2 = world ts"
  by (auto simp: applyScriptUpdates_def Let_def Logf_def split: if_splits sum.splits prod.splits option.splits)

lemma scan_lines_line:
  "NL \<notin> set l \<Longrightarrow> scan_lines cur (l @ NL # rest) = (cur @ l) # scan_lines [] rest"
  by (induction l arbitrary: cur) auto

lemma scan_lines_long:
  assumes "NL \<notin> set l" and "maxTokenSize \<le> length l"
  shows "list_ex (\<lambda>x. maxTokenSize \<le> length x) (scan_lines cur (pre @ l @ NL # rest))"
proof (induction pre arbitrary: cur)
  case Nil
  show ?case using assms by (simp add: scan_lines_line)
next
  case (Cons c pre)
  show ?case using Cons [of "[]"] Cons [of "cur @ [c]"] by simp
qed

lemma Scan_too_long:
  assumes "NL \<notin> set l" and "maxTokenSize \<le> length l"
  shows "Scan (pre @ l @ NL # rest) = Inl ''bufio.Scanner: token too long''"
  using scan_lines_long [OF assms] by (simp add: Scan_def Let_def)

lemma run_exit:
  assumes "run_commands cs ts = Inr t0" and "wait t0 = Inr t1" and "final_phase h now t1 = Inr t2"
    and "\<not> stopped t2" and "Scan (log t2) = Inl err"
  shows "run h wait now cs ts = Inl (1, t2\<lparr>console := console t2 @ ''cannot read buffer: '' @ err\<rparr>)"
  using assms by (simp add: run_def run_end_def removeGHAnnotation_def)

lemma run_unwinds:
  assumes "(case run_commands cs ts of Inl a \<Rightarrow> Inr (Inl a) | Inr ts0 \<Rightarrow> run_end h wait now ts0) = Inr body"
    and "(case body of Inl (a, t) \<Rightarrow> (Some a, t) | Inr t \<Rightarrow> (None, t)) = (a1, t1)"
  shows "\<not> isl (run h wait now cs ts) \<and> fst (fst (projr (run h wait now cs ts))) = a1
    \<and> world (snd (projr (run h wait now cs ts))) = fst (deferred t1 (world t1))"
proof -
  obtain b2 t2 where u: "(case applyScriptUpdates h t1 of Inl (a, t) \<Rightarrow> (Some a, t) | Inr t \<Rightarrow> (None, t)) = (b2, t2)"
    by (cases "case applyScriptUpdates h t1 of Inl (a, t) \<Rightarrow> (Some a, t) | Inr t \<Rightarrow> (None, t)") auto
  have f: "deferred t2 = deferred t1 \<and> world t2 = world t1"
    using applyScriptUpdates_frame [OF u] .
  have e: "run h wait now cs ts = Inr ((a1, b2, snd (deferred t2 (world t2))), t2\<lparr>world := fst (deferred t2 (world t2))\<rparr>)"
    by (simp add: run_def assms u Let_def split: prod.splits)
  show ?thesis using f by (simp add: e)
qed

lemma run_aborted:
  assumes "run_commands cs ts = Inl (a, t1)"
  shows "\<not> isl (run h wait now cs ts) \<and> fst (fst (projr (run h wait now cs ts))) = Some a
    \<and> world (snd (projr (run h wait now cs ts))) = fst (deferred t1 (world t1))"
proof -
  have b: "(case run_commands cs ts of Inl a \<Rightarrow> Inr (Inl a) | Inr ts0 \<Rightarrow> run_end h wait now ts0)
      = Inr (Inl (a, t1))"
    using assms by simp
  have r: "(case Inl (a, t1) of Inl (a, t) \<Rightarrow> (Some a, t) | Inr t \<Rightarrow> (None, t)) = (Some a, t1)"
    by simp
  show ?thesis using run_unwinds [OF b r] .
qed

lemma run_end_frame:
  assumes "\<And>t. case wait t of Inl (a, t') \<Rightarrow> deferred t' = deferred t \<and> world t' = world t
                           | Inr t' \<Rightarrow> deferred t' = deferred t \<and> world t' = world t"
  shows "case run_end h wait now t0 of
           Inl (code, t) \<Rightarrow> deferred t = deferred t0 \<and> world t = world t0
         | Inr (Inl (a, t)) \<Rightarrow> deferred t = deferred t0 \<and> world t = world t0
         | Inr (Inr t) \<Rightarrow> deferred t = deferred t0 \<and> world t = world t0"
  using assms [of t0]
  by (auto simp: run_end_def final_phase_def rewind_def markTime_def andThen_def removeGHAnnotation_def Let_def
      split: sum.splits prod.splits if_splits option.splits)

lemma run_passing:
  assumes "\<not> stopped ts"
    and "\<And>t. case wait t of Inl (a, t') \<Rightarrow> deferred t' = deferred t \<and> world t' = world t
                           | Inr t' \<Rightarrow> deferred t' = deferred t \<and> world t' = world t"
  shows "case run h wait now (map defer_command fs) ts of
           Inl (code, t) \<Rightarrow> world t = world ts
         | Inr (r, t) \<Rightarrow> world t = fst (deferred ts (foldr (\<lambda>f w. fst (f w)) fs (world ts)))"
proof -
  let ?t0 = "fold Defer fs ts"
  have pass: "run_commands (map defer_command fs) ts = Inr ?t0"
    using run_commands_defers [OF assms(1), of fs "[]"] by simp
  have d: "\<And>w. fst (deferred ?t0 w) = fst (deferred ts (foldr (\<lambda>f w. fst (f w)) fs w))"
    using deferred_fold_Defer [of fs ts] by simp
  have w0: "world ?t0 = world ts" by (simp add: fold_Defer_frame)
  have fr: "case run_end h wait now ?t0 of
           Inl (code, t) \<Rightarrow> deferred t = deferred ?t0 \<and> world t = world ?t0
         | Inr (Inl (a, t)) \<Rightarrow> deferred t = deferred ?t0 \<and> world t = world ?t0
         | Inr (Inr t) \<Rightarrow> deferred t = deferred ?t0 \<and> world t = world ?t0"
    using run_end_frame [OF assms(2)] .
  show ?thesis
  proof (cases "run_end h wait now ?t0")
    case (Inl x)
    then show ?thesis using fr w0 by (simp add: run_def pass split: prod.splits)
  next
    case (Inr body)
    obtain a1 t1 where r: "(case body of Inl (a, t) \<Rightarrow> (Some a, t) | Inr t \<Rightarrow> (None, t)) = (a1, t1)"
      by (cases "case body of Inl (a, t) \<Rightarrow> (Some a, t) | Inr t \<Rightarrow> (None, t)") auto
    have f1: "deferred t1 = deferred ?t0 \<and> world t1 = world ?t0"
      using fr r Inr by (auto split: sum.splits)
    have u: "\<not> isl (run h wait now (map defer_command fs) ts)
        \<and> world (snd (projr (run h wait now (map defer_command fs) ts))) = fst (deferred t1 (world t1))"
    proof -
      have b: "(case run_commands (map defer_command fs) ts of Inl a \<Rightarrow> Inr (Inl a)
            | Inr ts0 \<Rightarrow> run_end h wait now ts0) = Inr body"
        using pass Inr by simp
      show ?thesis using run_unwinds [OF b r] by simp
    qed
    then show ?thesis using f1 d w0 by (auto split: sum.splits)
  qed
qed

lemma run_failing:
  assumes "\<not> stopped ts"
  shows "\<not> isl (run h wait now (map defer_command fs @ fatal_command h msg # later) ts)
    \<and> fst (fst (projr (run h wait now (map defer_command fs @ fatal_command h msg # later) ts))) = Some FailNow
    \<and> world (snd (projr (run h wait now (map defer_command fs @ fatal_command h msg # later) ts)))
        = fst (deferred ts (foldr (\<lambda>f w. fst (f w)) fs (world ts)))"
proof -
  have fail: "run_commands (map defer_command fs @ fatal_command h msg # later) ts
      = Inl (FailNow, Fatalf h msg (fold Defer fs ts))"
    using run_commands_defers [OF assms(1), of fs "fatal_command h msg # later"]
    by (simp add: fatal_command_def)
  have d: "\<And>w. fst (deferred (fold Defer fs ts) w) = fst (deferred ts (foldr (\<lambda>f w. fst (f w)) fs w))"
    using deferred_fold_Defer [of fs ts] by simp
  show ?thesis
    using run_aborted [OF fail] d by (simp add: Fatalf_frame fold_Defer_frame)
qed

lemma long_heading_line: "NL \<notin> set long_heading \<and> maxTokenSize \<le> length long_heading"
  by (simp add: long_heading_def)

lemma no_time: "Seconds3 linux_host 0 = ''0.000''"
  by code_simp

lemma long_script_loop:
  "run_commands (long_script heading) (new_script [])
     = Inr ((Defer (noting 2) (Defer (noting 1) (new_script [])))
             \<lparr>log := heading @ [NL], mark := length (heading @ [NL]), start := Some 0\<rparr>)"
  by (simp add: long_script_def defer_command_def Defer_def phase_def andThen_def Let_def new_script_def)

lemma long_script_last_phase:
  "final_phase linux_host 0
     ((Defer (noting 2) (Defer (noting 1) (new_script [])))
        \<lparr>log := heading @ [NL], mark := length (heading @ [NL]), start := Some 0\<rparr>)
     = Inr ((Defer (noting 2) (Defer (noting 1) (new_script [])))
             \<lparr>log := heading @ '' (0.000s)'' @ [NL], mark := length (heading @ [NL]), start := None\<rparr>)"
proof -
  have q: "\<not> Verbose linux_host" by (simp add: linux_host_def)
  show ?thesis
    using q by (simp add: final_phase_def rewind_def markTime_def andThen_def Let_def no_time Defer_def new_script_def)
qed

lemma long_script_exit:
  "run linux_host no_wait 0 (long_script long_heading) (new_script []) = Inl (1, ts_exit)"
proof -
  let ?t2 = "(Defer (noting 2) (Defer (noting 1) (new_script [])))
       \<lparr>log := long_heading @ '' (0.000s)'' @ [NL], mark := length (long_heading @ [NL]), start := None\<rparr>"
  have l: "NL \<notin> set (long_heading @ '' (0.000s)'') \<and> maxTokenSize \<le> length (long_heading @ '' (0.000s)'')"
    using long_heading_line by simp
  have "Scan ([] @ (long_heading @ '' (0.000s)'') @ NL # []) = Inl ''bufio.Scanner: token too long''"
    using l by (intro Scan_too_long) simp_all
  then have s: "Scan (log ?t2) = Inl ''bufio.Scanner: token too long''"
    by simp
  have n: "\<not> stopped ?t2" by (simp add: Defer_def new_script_def)
  have w: "no_wait ((Defer (noting 2) (Defer (noting 1) (new_script [])))
             \<lparr>log := long_heading @ [NL], mark := length (long_heading @ [NL]), start := Some 0\<rparr>)
      = Inr ((Defer (noting 2) (Defer (noting 1) (new_script [])))
             \<lparr>log := long_heading @ [NL], mark := length (long_heading @ [NL]), start := Some 0\<rparr>)"
    by (simp add: no_wait_def)
  have c: "console ?t2 = []" by (simp add: Defer_def new_script_def)
  show ?thesis
    using run_exit [where wait = no_wait, OF long_script_loop [of long_heading] w long_script_last_phase [of long_heading] n s] c
    by (simp add: ts_exit_def)
qed

lemma ts_exit_pending: "world ts_exit = [] \<and> fst (deferred ts_exit []) = [2, 1]"
  by (simp add: ts_exit_def Defer_def new_script_def noting_def no_action_def Let_def)

lemma long_script_fails:
  "\<not> isl (run linux_host no_wait 0 (long_script long_heading @ [fatal_command linux_host ''unknown command'']) (new_script []))
   \<and> fst (fst (projr (run linux_host no_wait 0
         (long_script long_heading @ [fatal_command linux_host ''unknown command'']) (new_script [])))) = Some FailNow
   \<and> world (snd (projr (run linux_host no_wait 0
         (long_script long_heading @ [fatal_command linux_host ''unknown command'']) (new_script [])))) = [2, 1]"
proof -
  let ?tA = "(Defer (noting 2) (Defer (noting 1) (new_script [])))
             \<lparr>log := long_heading @ [NL], mark := length (long_heading @ [NL]), start := Some 0\<rparr>"
  have l: "run_commands (long_script long_heading @ [fatal_command linux_host ''unknown command'']) (new_script [])
      = Inl (FailNow, Fatalf linux_host ''unknown command'' ?tA)"
    by (simp add: long_script_def defer_command_def fatal_command_def Defer_def phase_def andThen_def Let_def new_script_def)
  have d: "fst (deferred ?tA (world ?tA)) = [2, 1]"
    by (simp add: Defer_def new_script_def noting_def no_action_def Let_def)
  show ?thesis
    using run_aborted [OF l, of linux_host no_wait 0] d by (simp add: Fatalf_frame)
qed

lemma short_scan: "Scan (''# one (0.000s)'' @ [NL]) = Inr [''# one (0.000s)'']"
proof -
  have "scan_lines [] (''# one (0.000s)'' @ NL # []) = ([] @ ''# one (0.000s)'') # scan_lines [] []"
    by (intro scan_lines_line) simp
  then have "scan_lines [] (''# one (0.000s)'' @ [NL]) = [''# one (0.000s)'']" by simp
  then show ?thesis by (simp add: Scan_def Let_def maxTokenSize_def dropCR_def)
qed

lemma short_clean: "\<not> Contains ''# one (0.000s)'' ''::error file''"
  unfolding Contains_def by code_simp

lemma short_script_clean:
  "removeGHAnnotation
     ((Defer (noting 2) (Defer (noting 1) (new_script [])))
        \<lparr>log := ''# one'' @ '' (0.000s)'' @ [NL], mark := length (''# one'' @ [NL]), start := None\<rparr>)
     = Inr ((Defer (noting 2) (Defer (noting 1) (new_script [])))
             \<lparr>log := ''# one (0.000s)'' @ [NL], mark := length (''# one'' @ [NL]), start := None\<rparr>)"
proof -
  have s: "Scan (''# one'' @ '' (0.000s)'' @ [NL]) = Inr [''# one (0.000s)'']"
    using short_scan by simp
  have l: "log ((Defer (noting 2) (Defer (noting 1) (new_script [])))
        \<lparr>log := ''# one'' @ '' (0.000s)'' @ [NL], mark := length (''# one'' @ [NL]), start := None\<rparr>)
      = ''# one'' @ '' (0.000s)'' @ [NL]"
    by simp
  show ?thesis
    unfolding removeGHAnnotation_def l s using short_clean by simp
qed

lemma short_script_end:
  "run_end linux_host no_wait 0
     ((Defer (noting 2) (Defer (noting 1) (new_script [])))
        \<lparr>log := ''# one'' @ [NL], mark := length (''# one'' @ [NL]), start := Some 0\<rparr>)
     = Inr (Inr ((Defer (noting 2) (Defer (noting 1) (new_script [])))
             \<lparr>log := ''# one (0.000s)'' @ [NL] @ ''PASS'' @ [NL], mark := length (''# one'' @ [NL]), start := None\<rparr>))"
proof -
  have n: "\<not> stopped ((Defer (noting 2) (Defer (noting 1) (new_script [])))
             \<lparr>log := ''# one'' @ '' (0.000s)'' @ [NL], mark := length (''# one'' @ [NL]), start := None\<rparr>)"
    by (simp add: Defer_def new_script_def)
  show ?thesis
    unfolding run_end_def no_wait_def
    using n
    by (simp only: sum.case long_script_last_phase [of "''# one''"] if_True short_script_clean) simp
qed

lemma short_script_passes:
  "\<not> isl (run linux_host no_wait 0 (long_script ''# one'') (new_script []))
   \<and> fst (fst (projr (run linux_host no_wait 0 (long_script ''# one'') (new_script [])))) = None
   \<and> world (snd (projr (run linux_host no_wait 0 (long_script ''# one'') (new_script [])))) = [2, 1]"
proof -
  let ?tP = "(Defer (noting 2) (Defer (noting 1) (new_script [])))
             \<lparr>log := ''# one (0.000s)'' @ [NL] @ ''PASS'' @ [NL], mark := length (''# one'' @ [NL]), start := None\<rparr>"
  have b: "(case run_commands (long_script ''# one'') (new_script []) of Inl a \<Rightarrow> Inr (Inl a)
        | Inr ts0 \<Rightarrow> run_end linux_host no_wait 0 ts0) = Inr (Inr ?tP)"
    by (simp only: long_script_loop sum.case short_script_end)
  have r: "(case Inr ?tP of Inl (a, t) \<Rightarrow> (Some a, t) | Inr t \<Rightarrow> (None, t)) = (None, ?tP)"
    by simp
  have d: "fst (deferred ?tP (world ?tP)) = [2, 1]"
    by (simp add: Defer_def new_script_def noting_def no_action_def Let_def)
  show ?thesis using run_unwinds [OF b r] d by simp
qed

lemma Scan_fails: "isl (Scan s) \<longleftrightarrow> list_ex (\<lambda>l. maxTokenSize \<le> length l) (scan_lines [] s)"
  by (simp add: Scan_def Let_def)

lemma run_exits:
  "isl (run h wait now cs ts) \<longleftrightarrow>
     (\<exists>t0 t1 t2. run_commands cs ts = Inr t0 \<and> wait t0 = Inr t1 \<and> final_phase h now t1 = Inr t2
        \<and> \<not> stopped t2 \<and> isl (Scan (log t2)))"
  by (auto simp: run_def run_end_def removeGHAnnotation_def Let_def split: sum.splits prod.splits if_splits)

lemma run_update_panics:
  "\<not> isl (run linux_host no_wait 0 [defer_command (noting 1), defer_command (noting 2)] ts_noting)
   \<and> fst (snd (fst (projr (run linux_host no_wait 0 [defer_command (noting 1), defer_command (noting 2)] ts_noting))))
     = Some (Panic ''script update file not found'')
   \<and> world (snd (projr (run linux_host no_wait 0 [defer_command (noting 1), defer_command (noting 2)] ts_noting))) = [2, 1]"
proof -
  have s: "Scan [] = Inr []" by (simp add: Scan_def)
  show ?thesis
    by (simp add: run_def run_end_def no_wait_def final_phase_def rewind_def markTime_def removeGHAnnotation_def s
        Let_def defer_command_def Defer_def ts_noting_def new_script_def linux_host_def noting_def no_action_def
        applyScriptUpdates_def three_files_def andThen_def split: prod.splits)
qed

text \<open>
  Claim C9, at its failing input. A script defers two actions and then has a heading of
  \<^verbatim>\<open>1024*1024\<close> bytes. No directive fails, so the body of \<^verbatim>\<open>run\<close> reaches its end, where
  \<^verbatim>\<open>removeGHAnnotation\<close> scans the transcript: the line of the heading does not fit the
  buffer of the scan, and the process exits with status 1. The result of the run is that
  exit: the world is as it was, and the two actions are still pending, they would have
  noted 2 and then 1. The same script followed by a directive that fails fatally runs
  both actions, the last deferred first, and so does the script with a short heading,
  which passes; a fatal failure after three deferred actions runs the three, whatever
  follows it, and a panic of the update of the archive does not keep the actions from
  running either.
\<close>

theorem deferred_skipped_at_exit:
  "run linux_host no_wait 0 (long_script long_heading) (new_script []) = Inl (1, ts_exit)
   \<and> long_heading = replicate (1024 * 1024) (CHR ''#'')
   \<and> world ts_exit = [] \<and> fst (deferred ts_exit []) = [2, 1]
   \<and> \<not> isl (run linux_host no_wait 0 (long_script long_heading @ [fatal_command linux_host ''unknown command'']) (new_script []))
   \<and> fst (fst (projr (run linux_host no_wait 0
         (long_script long_heading @ [fatal_command linux_host ''unknown command'']) (new_script [])))) = Some FailNow
   \<and> world (snd (projr (run linux_host no_wait 0
         (long_script long_heading @ [fatal_command linux_host ''unknown command'']) (new_script [])))) = [2, 1]
   \<and> \<not> isl (run linux_host no_wait 0 (long_script ''# one'') (new_script []))
   \<and> fst (fst (projr (run linux_host no_wait 0 (long_script ''# one'') (new_script [])))) = None
   \<and> world (snd (projr (run linux_host no_wait 0 (long_script ''# one'') (new_script [])))) = [2, 1]
   \<and> world (snd (projr (run linux_host no_wait 0
         (map defer_command [noting 1, noting 2, noting 3]
            @ fatal_command linux_host ''unknown command'' # [defer_command (noting 4)]) (new_script [])))) = [3, 2, 1]
   \<and> fst (snd (fst (projr (run linux_host no_wait 0 [defer_command (noting 1), defer_command (noting 2)] ts_noting))))
       = Some (Panic ''script update file not found'')
   \<and> world (snd (projr (run linux_host no_wait 0 [defer_command (noting 1), defer_command (noting 2)] ts_noting))) = [2, 1]"
proof -
  have n: "\<not> stopped (new_script ([]::nat list))" by (simp add: new_script_def)
  have f: "world (snd (projr (run linux_host no_wait 0
         (map defer_command [noting 1, noting 2, noting 3]
            @ fatal_command linux_host ''unknown command'' # [defer_command (noting 4)]) (new_script [])))) = [3, 2, 1]"
    using run_failing [OF n, of linux_host no_wait 0 "[noting 1, noting 2, noting 3]" "''unknown command''" "[defer_command (noting 4)]"]
    by (simp add: new_script_def noting_def no_action_def)
  have h: "long_heading = replicate (1024 * 1024) (CHR ''#'')"
    by (simp only: long_heading_def maxTokenSize_def)
  show ?thesis
    using long_script_exit h ts_exit_pending long_script_fails short_script_passes f run_update_panics
    by (elim conjE, intro conjI) assumption+
qed

section \<open>Properties of the conditions\<close>

lemma condition_exec:
  assumes "reaches_exec h prog"
  shows "condition h C g ts (''exec:'' @ prog) =
     (case execCache g prog of
        Some v \<Rightarrow> Inr ((v, None), g)
      | None \<Rightarrow>
          Inr ((case Look h prog (Getenv h ts) of Inl err \<Rightarrow> False | Inr p \<Rightarrow> True, None),
               g\<lparr>execCache := (execCache g)(prog \<mapsto> (case Look h prog (Getenv h ts) of Inl err \<Rightarrow> False | Inr p \<Rightarrow> True)),
                  probes := probes g @ [prog]\<rparr>))"
proof -
  have "condition h C g ts (''exec:'' @ prog) =
      (case Cache_Do (execCache g) prog
              (\<lambda>looked. (case Look h prog (Getenv h ts) of Inl err \<Rightarrow> False | Inr p \<Rightarrow> True,
                          looked @ [prog]))
              (probes g) of
         (ok, c, looked) \<Rightarrow> Inr ((ok, None), g\<lparr>execCache := c, probes := looked\<rparr>))"
    using assms by (simp add: condition_def reaches_exec_def HasPrefix_def Let_def)
  then show ?thesis by (simp add: Cache_Do_def split: option.splits)
qed

lemma condition_globals:
  "condition h C g ts c = Inr (r, g1) \<Longrightarrow>
   g1 = g \<or> (\<exists>prog ok. execCache g prog = None
              \<and> g1 = g\<lparr>execCache := (execCache g)(prog \<mapsto> ok), probes := probes g @ [prog]\<rparr>)"
  by (auto simp: condition_def Let_def Cache_Do_def Check_failed_def
      split: if_splits option.splits sum.splits prod.splits)

lemma condition_inv:
  assumes "condition h C g ts c = Inr (r, g1)" and "cache_inv g"
  shows "cache_inv g1"
proof -
  from condition_globals [OF assms(1)] show ?thesis
  proof
    assume "g1 = g"
    then show ?thesis using assms(2) by simp
  next
    assume "\<exists>prog ok. execCache g prog = None
              \<and> g1 = g\<lparr>execCache := (execCache g)(prog \<mapsto> ok), probes := probes g @ [prog]\<rparr>"
    then obtain prog ok where n: "execCache g prog = None"
      and g1: "g1 = g\<lparr>execCache := (execCache g)(prog \<mapsto> ok), probes := probes g @ [prog]\<rparr>"
      by blast
    have "prog \<notin> set (probes g)" using n assms(2) by (auto simp: cache_inv_def)
    then show ?thesis using assms(2) by (auto simp: g1 cache_inv_def)
  qed
qed

lemma conditions_inv: "cache_inv g \<Longrightarrow> cache_inv (conditions xs g)"
proof (induction xs arbitrary: g)
  case Nil
  then show ?case by simp
next
  case (Cons x xs)
  obtain h C ts c where x: "x = (h, C, ts, c)" by (cases x) auto
  show ?case
  proof (cases "condition h C g ts c")
    case (Inl a)
    then show ?thesis using Cons by (simp add: x)
  next
    case (Inr b)
    obtain r g1 where b: "b = (r, g1)" by (cases b) auto
    have "cache_inv g1" using condition_inv [of h C g ts c r g1] Inr b Cons.prems by simp
    then show ?thesis using Cons.IH [of g1] Inr b by (simp add: x)
  qed
qed

lemma distinct_count: "distinct xs \<Longrightarrow> count_list xs x \<le> 1"
  by (induction xs) auto

text \<open>
  Claim C7. The condition \<open>exec:<name>\<close> is memoized by name. Evaluated a second time,
  on whatever host, search path and script, it returns the truth value of the first
  evaluation and leaves the globals as they are, so the search path is not looked up
  again; and over any sequence of evaluations a name is looked up at most once.
\<close>

theorem exec_condition_memoized:
  assumes "reaches_exec h1 prog" and "reaches_exec h2 prog" and "cache_inv g"
  shows "\<exists>ok g1. condition h1 C1 g ts1 (''exec:'' @ prog) = Inr ((ok, None), g1)
      \<and> condition h2 C2 g1 ts2 (''exec:'' @ prog) = Inr ((ok, None), g1)
      \<and> execCache g1 prog = Some ok
      \<and> count_list (probes g1) prog \<le> 1
      \<and> count_list (probes (conditions xs g)) prog \<le> 1"
proof -
  have many: "count_list (probes (conditions xs g)) prog \<le> 1"
    using conditions_inv [OF assms(3), of xs] distinct_count by (auto simp: cache_inv_def)
  show ?thesis
  proof (cases "execCache g prog")
    case (Some v)
    have "condition h1 C1 g ts1 (''exec:'' @ prog) = Inr ((v, None), g)"
      using condition_exec [OF assms(1), of C1 g ts1] Some by simp
    moreover have "condition h2 C2 g ts2 (''exec:'' @ prog) = Inr ((v, None), g)"
      using condition_exec [OF assms(2), of C2 g ts2] Some by simp
    moreover have "count_list (probes g) prog \<le> 1"
      using assms(3) distinct_count by (auto simp: cache_inv_def)
    ultimately show ?thesis using Some many by blast
  next
    case None
    let ?ok = "case Look h1 prog (Getenv h1 ts1) of Inl err \<Rightarrow> False | Inr p \<Rightarrow> True"
    let ?g1 = "g\<lparr>execCache := (execCache g)(prog \<mapsto> ?ok), probes := probes g @ [prog]\<rparr>"
    have first: "condition h1 C1 g ts1 (''exec:'' @ prog) = Inr ((?ok, None), ?g1)"
      using condition_exec [OF assms(1), of C1 g ts1] None by simp
    have c: "execCache ?g1 prog = Some ?ok" by simp
    have second: "condition h2 C2 ?g1 ts2 (''exec:'' @ prog) = Inr ((?ok, None), ?g1)"
      using condition_exec [OF assms(2), of C2 ?g1 ts2] c by simp
    have "cache_inv ?g1" using condition_inv [OF first assms(3)] .
    then have "count_list (probes ?g1) prog \<le> 1"
      using distinct_count by (auto simp: cache_inv_def)
    then show ?thesis using first second c many by blast
  qed
qed

lemma condition_first_example:
  "condition linux_host None no_globals (new_script ()) ''exec:qemu''
     = Inr ((False, None), \<lparr>execCache = [''qemu'' \<mapsto> False], probes = [''qemu'']\<rparr>)"
  using condition_exec [of linux_host "''qemu''" None no_globals "new_script ()"]
  by (simp add: reaches_exec_def linux_host_def no_globals_def)

theorem exec_condition_memoized_witness:
  "reaches_exec linux_host ''qemu'' \<and> reaches_exec broken_host ''qemu'' \<and> cache_inv no_globals
   \<and> condition linux_host None no_globals (new_script ()) ''exec:qemu''
       = Inr ((False, None), \<lparr>execCache = [''qemu'' \<mapsto> False], probes = [''qemu'']\<rparr>)
   \<and> Look broken_host ''qemu'' (Getenv broken_host tsx) = Inr ''/bin/qemu''
   \<and> condition broken_host None \<lparr>execCache = [''qemu'' \<mapsto> False], probes = [''qemu'']\<rparr> tsx ''exec:qemu''
       = Inr ((False, None), \<lparr>execCache = [''qemu'' \<mapsto> False], probes = [''qemu'']\<rparr>)
   \<and> count_list (probes (conditions [(linux_host, None, tsx, ''exec:qemu''), (broken_host, None, tsx, ''exec:qemu'')] no_globals)) ''qemu'' \<le> 1"
proof -
  have a: "reaches_exec linux_host ''qemu''" by (simp add: reaches_exec_def linux_host_def)
  have b: "reaches_exec broken_host ''qemu''" by (simp add: reaches_exec_def linux_host_def broken_host_def)
  have c: "cache_inv no_globals" by (simp add: cache_inv_def no_globals_def)
  have l: "Look broken_host ''qemu'' (Getenv broken_host tsx) = Inr ''/bin/qemu''"
    by (simp add: broken_host_def)
  obtain ok g1 where
    first: "condition linux_host None no_globals (new_script ()) ''exec:qemu'' = Inr ((ok, None), g1)"
    and second: "condition broken_host None g1 tsx ''exec:qemu'' = Inr ((ok, None), g1)"
    and many: "count_list (probes (conditions [(linux_host, None, tsx, ''exec:qemu''), (broken_host, None, tsx, ''exec:qemu'')] no_globals)) ''qemu'' \<le> 1"
    using exec_condition_memoized [OF a b c, of None "new_script ()" None tsx
        "[(linux_host, None, tsx, ''exec:qemu''), (broken_host, None, tsx, ''exec:qemu'')]"]
    by auto
  have ok: "ok = False" and g1: "g1 = \<lparr>execCache = [''qemu'' \<mapsto> False], probes = [''qemu'']\<rparr>"
    using first condition_first_example by simp_all
  show ?thesis using a b c l first second many unfolding ok g1 by simp
qed

section \<open>Properties of the archive update\<close>

lemma update_files_quotable:
  "quotable h content \<Longrightarrow>
   update_files h name content files found =
     Inr (map (\<lambda>f. if Name f = name then f\<lparr>Data := stored h content\<rparr> else f) files,
          found \<or> name \<in> Name ` set files)"
proof (induction files arbitrary: found)
  case Nil
  show ?case by simp
next
  case (Cons f fs)
  show ?case
  proof (cases "Name f = name")
    case False
    then show ?thesis using Cons by (auto simp: andThen_def)
  next
    case True
    show ?thesis
    proof (cases "NeedsQuote h content")
      case False
      then show ?thesis using True Cons by (simp add: andThen_def stored_def)
    next
      case nq: True
      then obtain d where d: "Quote h content = Inr d"
        using Cons.prems by (auto simp: quotable_def split: sum.splits)
      show ?thesis using True nq d Cons by (simp add: andThen_def stored_def)
    qed
  qed
qed

lemma update_files_absent:
  "name \<notin> Name ` set files \<Longrightarrow> update_files h name content files found = Inr (files, found)"
  by (induction files arbitrary: found) (auto simp: andThen_def)

lemma update_files_names:
  "update_files h name content files found = Inr (files1, found1) \<Longrightarrow> map Name files1 = map Name files"
proof (induction files arbitrary: found files1 found1)
  case Nil
  then show ?case by simp
next
  case (Cons f fs)
  then show ?case
    by (auto simp: andThen_def split: if_splits sum.splits prod.splits)
qed

lemma apply_updates_absent:
  "(name, content) \<in> set ups \<Longrightarrow> name \<notin> Name ` set files \<Longrightarrow>
   \<exists>a files1. apply_updates h ups files = Inl (a, files1)"
proof (induction ups arbitrary: files)
  case Nil
  then show ?case by simp
next
  case (Cons u ups)
  obtain n c where u: "u = (n, c)" by (cases u) auto
  show ?case
  proof (cases "update_files h n c files False")
    case (Inl msg)
    then show ?thesis by (simp add: u)
  next
    case (Inr r)
    obtain files1 found where r: "r = (files1, found)" by (cases r) auto
    show ?thesis
    proof (cases found)
      case False
      then show ?thesis using Inr r by (simp add: u)
    next
      case True
      have ne: "u \<noteq> (name, content)"
        using update_files_absent [of name files h content False] Cons.prems(2) Inr r True u by auto
      have "map Name files1 = map Name files" using update_files_names Inr r by blast
      then have "Name ` set files1 = Name ` set files" by (metis list.set_map)
      then have "\<exists>a files2. apply_updates h ups files1 = Inl (a, files2)"
        using Cons.IH [of files1] Cons.prems ne by auto
      then show ?thesis using Inr r True by (simp add: u)
    qed
  qed
qed

lemma apply_updates_not_found:
  "(name, content) \<in> set ups \<Longrightarrow> name \<notin> Name ` set files \<Longrightarrow>
   \<forall>(n, c) \<in> set ups. quotable h c \<Longrightarrow>
   \<exists>files1. apply_updates h ups files = Inl (Panic ''script update file not found'', files1)"
proof (induction ups arbitrary: files)
  case Nil
  then show ?case by simp
next
  case (Cons u ups)
  obtain n c where u: "u = (n, c)" by (cases u) auto
  have q: "quotable h c" using Cons.prems(3) u by auto
  let ?files1 = "map (\<lambda>f. if Name f = n then f\<lparr>Data := stored h c\<rparr> else f) files"
  have uf: "update_files h n c files False = Inr (?files1, n \<in> Name ` set files)"
    using update_files_quotable [OF q, of n files False] by simp
  show ?case
  proof (cases "n \<in> Name ` set files")
    case False
    then show ?thesis using uf by (simp add: u)
  next
    case True
    then have ne: "u \<noteq> (name, content)" using Cons.prems(2) u by auto
    have "map Name ?files1 = map Name files" using update_files_names [OF uf] .
    then have "Name ` set ?files1 = Name ` set files" by (metis list.set_map)
    then have "\<exists>files2. apply_updates h ups ?files1 = Inl (Panic ''script update file not found'', files2)"
      using Cons.IH [of ?files1] Cons.prems ne by auto
    then show ?thesis using uf True by (simp add: u)
  qed
qed

lemma apply_updates_ok:
  "distinct (map fst ups) \<Longrightarrow> \<forall>(n, c) \<in> set ups. quotable h c \<and> n \<in> Name ` set files \<Longrightarrow>
   apply_updates h ups files = Inr (updated h ups files)"
proof (induction ups arbitrary: files)
  case Nil
  show ?case by (simp add: updated_def)
next
  case (Cons u ups)
  obtain n c where u: "u = (n, c)" by (cases u) auto
  have q: "quotable h c" and present: "n \<in> Name ` set files" using Cons.prems(2) u by auto
  let ?files1 = "map (\<lambda>f. if Name f = n then f\<lparr>Data := stored h c\<rparr> else f) files"
  have uf: "update_files h n c files False = Inr (?files1, True)"
    using update_files_quotable [OF q, of n files False] present by simp
  have "map Name ?files1 = map Name files" using update_files_names [OF uf] .
  then have names: "Name ` set ?files1 = Name ` set files" by (metis list.set_map)
  have fresh: "map_of ups n = None"
    using Cons.prems(1) u by (simp add: map_of_eq_None_iff)
  have IH: "apply_updates h ups ?files1 = Inr (updated h ups ?files1)"
    using Cons.IH [of ?files1] Cons.prems names u by auto
  have "updated h ups ?files1 = updated h (u # ups) files"
    using fresh by (auto simp: updated_def u)
  then show ?case using uf IH by (simp add: u)
qed

text \<open>
  Claim C5. An update whose name is the name of no file of the archive aborts
  \<^verbatim>\<open>applyScriptUpdates\<close>, and nothing is written; the abort is the panic
  \<open>script update file not found\<close> when every update can be stored. When every update
  names a file and can be stored, and the script file can be written, every file with the
  name of an update holds what the update stores, and every other file of the archive is
  as it was.
\<close>

theorem applyScriptUpdates_archive:
  "((name, content) \<in> set (scriptUpdates ts) \<and> name \<notin> Name ` set (archive ts) \<longrightarrow>
      (\<exists>a ts1. applyScriptUpdates h ts = Inl (a, ts1) \<and> written ts1 = written ts)
      \<and> ((\<forall>(n, c) \<in> set (scriptUpdates ts). quotable h c) \<longrightarrow>
           (\<exists>ts1. applyScriptUpdates h ts = Inl (Panic ''script update file not found'', ts1))))
   \<and> (scriptUpdates ts \<noteq> [] \<and> distinct (map fst (scriptUpdates ts))
       \<and> (\<forall>(n, c) \<in> set (scriptUpdates ts). quotable h c \<and> n \<in> Name ` set (archive ts))
       \<and> (\<forall>d. WriteFile h (script_file ts) d = None) \<longrightarrow>
      (\<exists>ts1. applyScriptUpdates h ts = Inr ts1
         \<and> archive ts1 = updated h (scriptUpdates ts) (archive ts)
         \<and> written ts1 = Some (Format h (updated h (scriptUpdates ts) (archive ts)))))"
proof (intro conjI impI)
  assume a: "(name, content) \<in> set (scriptUpdates ts) \<and> name \<notin> Name ` set (archive ts)"
  then have ne: "scriptUpdates ts \<noteq> []" by auto
  obtain ab files1 where "apply_updates h (scriptUpdates ts) (archive ts) = Inl (ab, files1)"
    using apply_updates_absent [of name content "scriptUpdates ts" "archive ts" h] a by blast
  then show "\<exists>a ts1. applyScriptUpdates h ts = Inl (a, ts1) \<and> written ts1 = written ts"
    using ne by (simp add: applyScriptUpdates_def)
  assume q: "\<forall>(n, c) \<in> set (scriptUpdates ts). quotable h c"
  obtain files2 where "apply_updates h (scriptUpdates ts) (archive ts)
      = Inl (Panic ''script update file not found'', files2)"
    using apply_updates_not_found [of name content "scriptUpdates ts" "archive ts" h] a q by blast
  then show "\<exists>ts1. applyScriptUpdates h ts = Inl (Panic ''script update file not found'', ts1)"
    using ne by (simp add: applyScriptUpdates_def)
next
  assume b: "scriptUpdates ts \<noteq> [] \<and> distinct (map fst (scriptUpdates ts))
       \<and> (\<forall>(n, c) \<in> set (scriptUpdates ts). quotable h c \<and> n \<in> Name ` set (archive ts))
       \<and> (\<forall>d. WriteFile h (script_file ts) d = None)"
  have "apply_updates h (scriptUpdates ts) (archive ts) = Inr (updated h (scriptUpdates ts) (archive ts))"
    using apply_updates_ok [of "scriptUpdates ts" h "archive ts"] b by blast
  then show "\<exists>ts1. applyScriptUpdates h ts = Inr ts1
         \<and> archive ts1 = updated h (scriptUpdates ts) (archive ts)
         \<and> written ts1 = Some (Format h (updated h (scriptUpdates ts) (archive ts)))"
    using b by (simp add: applyScriptUpdates_def Let_def Logf_def)
qed

theorem applyScriptUpdates_archive_witness:
  "(''gone.txt'', ''new'') \<in> set (scriptUpdates ts_missing)
   \<and> ''gone.txt'' \<notin> Name ` set (archive ts_missing)
   \<and> (\<exists>ts1. applyScriptUpdates linux_host ts_missing = Inl (Panic ''script update file not found'', ts1))
   \<and> scriptUpdates ts_update \<noteq> [] \<and> distinct (map fst (scriptUpdates ts_update))
   \<and> (\<exists>ts1. applyScriptUpdates linux_host ts_update = Inr ts1
        \<and> archive ts1 = [\<lparr>Name = ''want.txt'', Data = ''new''\<rparr>, \<lparr>Name = ''in.txt'', Data = ''input''\<rparr>,
                           \<lparr>Name = ''want.txt'', Data = ''new''\<rparr>])"
proof -
  have q: "\<And>c. quotable linux_host c" by (simp add: quotable_def linux_host_def)
  have w: "\<And>f d. WriteFile linux_host f d = None" by (simp add: linux_host_def)
  have m1: "(''gone.txt'', ''new'') \<in> set (scriptUpdates ts_missing)"
    by (simp add: ts_missing_def)
  have m2: "''gone.txt'' \<notin> Name ` set (archive ts_missing)"
    by (simp add: ts_missing_def three_files_def)
  have m3: "\<forall>(n, c) \<in> set (scriptUpdates ts_missing). quotable linux_host c"
    using q by simp
  have u1: "scriptUpdates ts_update \<noteq> [] \<and> distinct (map fst (scriptUpdates ts_update))"
    by (simp add: ts_update_def)
  have u2: "\<forall>(n, c) \<in> set (scriptUpdates ts_update). quotable linux_host c \<and> n \<in> Name ` set (archive ts_update)"
    using q by (simp add: ts_update_def three_files_def)
  have u3: "updated linux_host (scriptUpdates ts_update) (archive ts_update)
      = [\<lparr>Name = ''want.txt'', Data = ''new''\<rparr>, \<lparr>Name = ''in.txt'', Data = ''input''\<rparr>,
         \<lparr>Name = ''want.txt'', Data = ''new''\<rparr>]"
    by (simp add: updated_def ts_update_def three_files_def stored_def linux_host_def)
  have missing: "\<exists>ts1. applyScriptUpdates linux_host ts_missing = Inl (Panic ''script update file not found'', ts1)"
    using applyScriptUpdates_archive [of "''gone.txt''" "''new''" ts_missing linux_host] m1 m2 m3 by blast
  have present: "\<exists>ts1. applyScriptUpdates linux_host ts_update = Inr ts1
        \<and> archive ts1 = updated linux_host (scriptUpdates ts_update) (archive ts_update)"
    using applyScriptUpdates_archive [of "''gone.txt''" "''new''" ts_update linux_host] u1 u2 w by blast
  show ?thesis using m1 m2 missing u1 present unfolding u3 by blast
qed

section \<open>Properties of the failure report\<close>

lemma ReplaceAll_removes: "old \<notin> set new \<Longrightarrow> old \<notin> set (ReplaceAll s old new)"
  by (induction s) (auto simp: ReplaceAll_def)

lemma ReplaceAll_keeps_out: "c \<notin> set s \<Longrightarrow> c \<notin> set new \<Longrightarrow> c \<notin> set (ReplaceAll s old new)"
  by (induction s) (auto simp: ReplaceAll_def)

lemma escape_one_line: "NL \<notin> set (escape s) \<and> CR \<notin> set (escape s)"
proof -
  have "NL \<notin> set (ReplaceAll s NL ''%0A'')" by (rule ReplaceAll_removes) simp
  then have "NL \<notin> set (escape s)" unfolding escape_def by (rule ReplaceAll_keeps_out) simp
  moreover have "CR \<notin> set (escape s)" unfolding escape_def by (rule ReplaceAll_removes) simp
  ultimately show ?thesis by simp
qed

lemma ghAnnotation_escape: "ghAnnotation l = escape (drop (lastIndexOfStdout l) l)"
  by (simp add: ghAnnotation_def escape_def)

lemma LastIndex_None: "LastIndex s sep = None \<longleftrightarrow> Index s sep = None"
  by (induction s) (auto split: option.splits)

lemma LastIndex_last:
  "s \<noteq> [] \<Longrightarrow> HasPrefix s sep \<Longrightarrow> LastIndex (tl s) sep = None \<Longrightarrow>
   LastIndex (pre @ s) sep = Some (length pre)"
proof (induction pre)
  case Nil
  then obtain c s1 where "s = c # s1" by (cases s) auto
  then show ?case using Nil by simp
next
  case (Cons p pre)
  then show ?case by simp
qed

lemma since_last_marker:
  assumes "Index (''[stdout]'' @ [NL] @ post) stdout_marker = None"
  shows "drop (lastIndexOfStdout (pre @ stdout_marker @ post)) (pre @ stdout_marker @ post)
     = ''[stdout]'' @ [NL] @ post"
proof -
  have t: "tl (stdout_marker @ post) = ''[stdout]'' @ [NL] @ post"
    by (simp add: stdout_marker_def)
  have "LastIndex (''[stdout]'' @ [NL] @ post) stdout_marker = None"
    using assms by (simp only: LastIndex_None)
  then have n: "LastIndex (tl (stdout_marker @ post)) stdout_marker = None"
    by (simp only: t)
  have p: "HasPrefix (stdout_marker @ post) stdout_marker" by (simp add: HasPrefix_def)
  have ne: "stdout_marker @ post \<noteq> []" by (simp add: stdout_marker_def)
  have "LastIndex (pre @ stdout_marker @ post) stdout_marker = Some (length pre)"
    using LastIndex_last [OF ne p n] .
  then have "lastIndexOfStdout (pre @ stdout_marker @ post) = length pre + 1"
    by (simp only: lastIndexOfStdout_def option.case)
  then have "drop (lastIndexOfStdout (pre @ stdout_marker @ post)) (pre @ stdout_marker @ post)
      = tl (stdout_marker @ post)"
    by (simp add: stdout_marker_def)
  then show ?thesis by (simp only: t)
qed

lemma no_marker:
  assumes "Index l stdout_marker = None"
  shows "drop (lastIndexOfStdout l) l = l"
proof -
  have "LastIndex l stdout_marker = None" using assms by (simp only: LastIndex_None)
  then show ?thesis by (simp add: lastIndexOfStdout_def)
qed

lemma digit_not_NL: "k < 10 \<Longrightarrow> char_of (48 + k :: nat) \<noteq> NL"
proof
  assume k: "k < 10" and "char_of (48 + k) = NL"
  then have "(of_char (char_of (48 + k)) :: nat) = of_char NL" by simp
  then have "(48 + k) mod 256 = (10 :: nat)" by simp
  then show False using k by simp
qed

lemma decimal_one_line: "NL \<notin> set (decimal n)"
proof (induction n rule: decimal.induct)
  case (1 n)
  show ?case
  proof (cases "n < 10")
    case True
    then show ?thesis using digit_not_NL [of n] by (subst decimal.simps) simp
  next
    case False
    have "n mod 10 < 10" by simp
    then have "char_of (48 + n mod 10) \<noteq> NL" by (rule digit_not_NL)
    then show ?thesis using False 1 by (subst decimal.simps) simp
  qed
qed

lemma Itoa_one_line: "NL \<notin> set (Itoa i)"
  by (simp add: Itoa_def decimal_one_line)

lemma Fatalf_log:
  "log (Fatalf h msg ts) = log ts @ ''FAIL: '' @ script_file ts @ '':'' @ Itoa (lineno ts) @ '': '' @ msg @ [NL]"
  by (simp add: Fatalf_def addGHAnnotation_def Let_def)

lemma Fatalf_console:
  "console (Fatalf h msg ts) = console ts @ ''::error file='' @ pathToPrint h (script_file ts)
     @ '',line='' @ Itoa (lineno ts) @ ''::'' @ ghAnnotation (log (Fatalf h msg ts)) @ [NL]"
  by (simp add: Fatalf_def addGHAnnotation_def Let_def)

lemma count_list_notin: "x \<notin> set xs \<Longrightarrow> count_list xs x = 0"
  by (induction xs) auto

lemma count_list_app: "count_list (xs @ ys) x = count_list xs x + count_list ys x"
  by (induction xs) auto

lemma Fatalf_one_line:
  assumes "NL \<notin> set (pathToPrint h (script_file ts))"
  shows "count_list (drop (length (console ts)) (console (Fatalf h msg ts))) NL = 1"
proof -
  have g: "NL \<notin> set (ghAnnotation (log (Fatalf h msg ts)))"
    using escape_one_line by (simp add: ghAnnotation_escape)
  have "count_list (''::error file='' @ pathToPrint h (script_file ts)
     @ '',line='' @ Itoa (lineno ts) @ ''::'' @ ghAnnotation (log (Fatalf h msg ts)) @ [NL]) NL = 1"
    using assms g Itoa_one_line [of "lineno ts"]
    by (simp add: count_list_app count_list_notin)
  then show ?thesis by (simp add: Fatalf_console)
qed

text \<open>
  Claim C3. A fatal failure appends to the transcript one line \<open>FAIL: file:n: message\<close>
  with the script's file and the number of the line being executed, and prints one
  annotation \<open>::error file=path,line=n::text\<close>. The text is the transcript from the last
  marker of captured standard output on, or all of it when there is none, with every
  newline and carriage return replaced by an escape sequence, so that it holds neither;
  the annotation is one line when the path holds no newline.
\<close>

theorem Fatalf_annotation:
  "log (Fatalf h msg ts) = log ts @ ''FAIL: '' @ script_file ts @ '':'' @ Itoa (lineno ts) @ '': '' @ msg @ [NL]
   \<and> console (Fatalf h msg ts) = console ts @ ''::error file='' @ pathToPrint h (script_file ts)
       @ '',line='' @ Itoa (lineno ts) @ ''::'' @ ghAnnotation (log (Fatalf h msg ts)) @ [NL]
   \<and> NL \<notin> set (ghAnnotation l) \<and> CR \<notin> set (ghAnnotation l)
   \<and> (NL \<notin> set (pathToPrint h (script_file ts)) \<longrightarrow>
        count_list (drop (length (console ts)) (console (Fatalf h msg ts))) NL = 1)
   \<and> (Index l stdout_marker = None \<longrightarrow> ghAnnotation l = escape l)
   \<and> (Index (''[stdout]'' @ [NL] @ post) stdout_marker = None \<longrightarrow>
        ghAnnotation (pre @ stdout_marker @ post) = escape (''[stdout]'' @ [NL] @ post))
   \<and> stopped (Fatalf h msg ts) \<and> failed (Fatalf h msg ts) \<and> cancelled (Fatalf h msg ts)"
proof -
  have a: "NL \<notin> set (ghAnnotation l) \<and> CR \<notin> set (ghAnnotation l)"
    using escape_one_line by (simp add: ghAnnotation_escape)
  have b: "Index l stdout_marker = None \<longrightarrow> ghAnnotation l = escape l"
    using no_marker by (simp add: ghAnnotation_escape)
  have c: "Index (''[stdout]'' @ [NL] @ post) stdout_marker = None \<longrightarrow>
        ghAnnotation (pre @ stdout_marker @ post) = escape (''[stdout]'' @ [NL] @ post)"
    using since_last_marker [of post pre] by (simp add: ghAnnotation_escape)
  have d: "NL \<notin> set (pathToPrint h (script_file ts)) \<longrightarrow>
        count_list (drop (length (console ts)) (console (Fatalf h msg ts))) NL = 1"
    using Fatalf_one_line by blast
  show ?thesis using a b c d Fatalf_log Fatalf_console Fatalf_flags by blast
qed

lemma path_example: "pathToPrint linux_host ''tests/app/testdata/run.txt'' = ''tests/app/testdata/run.txt''"
  by code_simp

lemma marker_example: "Index (''[stdout]'' @ [NL] @ ''hello'' @ [CR, NL] @ ''FAIL: tests/app/testdata/run.txt:2: boom'' @ [NL]) stdout_marker = None"
  by code_simp

lemma escape_example:
  "escape (''[stdout]'' @ [NL] @ ''hello'' @ [CR, NL] @ ''FAIL: tests/app/testdata/run.txt:2: boom'' @ [NL])
     = ''[stdout]%0Ahello%0D%0AFAIL: tests/app/testdata/run.txt:2: boom%0A''"
  by code_simp

lemma Itoa_example: "Itoa 2 = ''2''"
  by code_simp

lemma no_marker_example: "Index (''> exec false'' @ [NL]) stdout_marker = None"
  by code_simp

lemma escape_plain_example: "escape (''> exec false'' @ [NL]) = ''> exec false%0A''"
  by code_simp

theorem Fatalf_annotation_witness:
  "NL \<notin> set (pathToPrint linux_host (script_file ts_logged))
   \<and> count_list (console (Fatalf linux_host ''boom'' ts_logged)) NL = 1
   \<and> Index (''[stdout]'' @ [NL] @ ''hello'' @ [CR, NL] @ ''FAIL: tests/app/testdata/run.txt:2: boom'' @ [NL]) stdout_marker = None
   \<and> console (Fatalf linux_host ''boom'' ts_logged)
       = ''::error file=tests/app/testdata/run.txt,line=2::[stdout]%0Ahello%0D%0AFAIL: tests/app/testdata/run.txt:2: boom%0A'' @ [NL]
   \<and> log (Fatalf linux_host ''boom'' ts_logged)
       = ''# check'' @ [NL] @ ''> exec hello'' @ [NL] @ ''[stdout]'' @ [NL] @ ''hello'' @ [CR, NL]
         @ ''FAIL: tests/app/testdata/run.txt:2: boom'' @ [NL]
   \<and> Index (''> exec false'' @ [NL]) stdout_marker = None
   \<and> ghAnnotation (''> exec false'' @ [NL]) = ''> exec false%0A''"
proof -
  let ?pre = "''# check'' @ [NL] @ ''> exec hello''"
  let ?post = "''hello'' @ [CR, NL] @ ''FAIL: tests/app/testdata/run.txt:2: boom'' @ [NL]"
  note T = Fatalf_annotation [of linux_host "''boom''" ts_logged "[]" ?post ?pre]
  have f: "script_file ts_logged = ''tests/app/testdata/run.txt''" "lineno ts_logged = 2"
      "console ts_logged = []"
      "log ts_logged = ''# check'' @ [NL] @ ''> exec hello'' @ [NL] @ ''[stdout]'' @ [NL] @ ''hello'' @ [CR, NL]"
    by (simp_all add: ts_logged_def new_script_def)
  have p: "NL \<notin> set (pathToPrint linux_host (script_file ts_logged))"
    by (simp add: f path_example)
  have T1: "log (Fatalf linux_host ''boom'' ts_logged)
      = ''# check'' @ [NL] @ ''> exec hello'' @ [NL] @ ''[stdout]'' @ [NL] @ ''hello'' @ [CR, NL]
         @ ''FAIL: tests/app/testdata/run.txt:2: boom'' @ [NL]"
    using T [THEN conjunct1] by (simp add: f Itoa_example)
  have l: "log (Fatalf linux_host ''boom'' ts_logged) = ?pre @ stdout_marker @ ?post"
    by (simp add: T1 stdout_marker_def)
  have "ghAnnotation (?pre @ stdout_marker @ ?post) = escape (''[stdout]'' @ [NL] @ ?post)"
    using T [THEN conjunct2, THEN conjunct2, THEN conjunct2, THEN conjunct2, THEN conjunct2,
        THEN conjunct2, THEN conjunct1, THEN mp, OF marker_example] .
  then have g: "ghAnnotation (log (Fatalf linux_host ''boom'' ts_logged))
      = ''[stdout]%0Ahello%0D%0AFAIL: tests/app/testdata/run.txt:2: boom%0A''"
    by (simp only: l escape_example)
  have T2: "console (Fatalf linux_host ''boom'' ts_logged)
       = ''::error file=tests/app/testdata/run.txt,line=2::[stdout]%0Ahello%0D%0AFAIL: tests/app/testdata/run.txt:2: boom%0A'' @ [NL]"
    using T [THEN conjunct2, THEN conjunct1] by (simp add: f path_example Itoa_example g)
  have "count_list (drop (length (console ts_logged)) (console (Fatalf linux_host ''boom'' ts_logged))) NL = 1"
    using T [THEN conjunct2, THEN conjunct2, THEN conjunct2, THEN conjunct2, THEN conjunct1,
        THEN mp, OF p] .
  then have c: "count_list (console (Fatalf linux_host ''boom'' ts_logged)) NL = 1"
    by (simp only: f list.size drop_0)
  have "ghAnnotation (''> exec false'' @ [NL]) = escape (''> exec false'' @ [NL])"
    using Fatalf_annotation [of linux_host "''boom''" ts_logged "''> exec false'' @ [NL]" ?post ?pre,
        THEN conjunct2, THEN conjunct2, THEN conjunct2, THEN conjunct2, THEN conjunct2,
        THEN conjunct1, THEN mp, OF no_marker_example] .
  then have n: "ghAnnotation (''> exec false'' @ [NL]) = ''> exec false%0A''"
    by (simp only: escape_plain_example)
  show ?thesis using p c marker_example T2 T1 no_marker_example n by (intro conjI)
qed

section \<open>Properties of the phases\<close>

lemma rewind_quiet:
  "in_phase ts pre heading detail t \<Longrightarrow> \<not> Verbose h \<Longrightarrow>
   rewind h ts = Inr (ts\<lparr>log := pre @ heading @ [NL]\<rparr>)"
  by (simp add: rewind_def in_phase_def)

lemma rewind_verbose: "Verbose h \<Longrightarrow> rewind h ts = Inr ts"
  by (simp add: rewind_def)

lemma markTime_in_phase:
  "in_phase ts pre heading detail t \<Longrightarrow>
   markTime h now ts = Inr (ts\<lparr>log := pre @ heading @ elapsed h (now - t) @ [NL] @ detail, start := None\<rparr>)"
  by (simp add: markTime_def in_phase_def elapsed_def Let_def)

lemma in_phase_rewound:
  "in_phase ts pre heading detail t \<Longrightarrow> in_phase (ts\<lparr>log := pre @ heading @ [NL]\<rparr>) pre heading [] t"
  by (simp add: in_phase_def)

lemma final_phase_quiet:
  assumes "in_phase ts pre heading detail t" and "\<not> Verbose h"
  shows "final_phase h now ts = Inr (ts\<lparr>log := pre @ heading @ elapsed h (now - t) @ [NL], start := None\<rparr>)"
  using rewind_quiet [OF assms] markTime_in_phase [OF in_phase_rewound [OF assms(1)], of h now]
  by (simp add: final_phase_def andThen_def)

lemma final_phase_verbose:
  assumes "in_phase ts pre heading detail t" and "Verbose h"
  shows "final_phase h now ts
     = Inr (ts\<lparr>log := pre @ heading @ elapsed h (now - t) @ [NL] @ detail, start := None\<rparr>)"
  using rewind_verbose [OF assms(2), of ts] markTime_in_phase [OF assms(1), of h now]
  by (simp add: final_phase_def andThen_def)

lemma phase_idle:
  assumes "in_phase ts pre heading [] t"
  shows "phase h now now' ln ts
     = Inr (ts\<lparr>log := pre @ heading @ [NL] @ ln @ [NL],
               mark := length (pre @ heading @ [NL] @ ln @ [NL]), start := Some now'\<rparr>)"
  using assms by (simp add: phase_def andThen_def in_phase_def Let_def)

lemma phase_quiet:
  assumes "in_phase ts pre heading detail t" and "\<not> Verbose h" and "detail \<noteq> []"
  shows "phase h now now' ln ts
     = Inr (ts\<lparr>log := pre @ heading @ elapsed h (now - t) @ [NL] @ ln @ [NL],
               mark := length (pre @ heading @ elapsed h (now - t) @ [NL] @ ln @ [NL]),
               start := Some now'\<rparr>)"
proof -
  have "length (log ts) > mark ts" using assms(1,3) by (simp add: in_phase_def)
  then show ?thesis
    using final_phase_quiet [OF assms(1,2), of now]
    by (simp add: phase_def final_phase_def andThen_def Let_def)
qed

lemma phase_verbose:
  assumes "in_phase ts pre heading detail t" and "Verbose h" and "detail \<noteq> []"
  shows "phase h now now' ln ts
     = Inr (ts\<lparr>log := pre @ heading @ elapsed h (now - t) @ [NL] @ detail @ ln @ [NL],
               mark := length (pre @ heading @ elapsed h (now - t) @ [NL] @ detail @ ln @ [NL]),
               start := Some now'\<rparr>)"
proof -
  have "length (log ts) > mark ts" using assms(1,3) by (simp add: in_phase_def)
  then show ?thesis
    using final_phase_verbose [OF assms(1,2), of now]
    by (simp add: phase_def final_phase_def andThen_def Let_def)
qed

text \<open>
  Claim C2, as the code has it. When the next heading closes a phase that has logged
  something after its heading, a quiet run removes what the phase logged and puts the
  elapsed time after the heading, and a verbose run puts the elapsed time after the
  heading and removes nothing. A phase that has logged nothing after its heading is left
  as it is by the next heading, without the elapsed time. At the end of the script the
  last phase is closed in the same way whether or not it has logged anything.
\<close>

theorem phase_truncation:
  assumes "in_phase ts pre heading detail t"
  shows "(\<not> Verbose h \<and> detail \<noteq> [] \<longrightarrow>
       phase h now now' ln ts
         = Inr (ts\<lparr>log := pre @ heading @ elapsed h (now - t) @ [NL] @ ln @ [NL],
                   mark := length (pre @ heading @ elapsed h (now - t) @ [NL] @ ln @ [NL]),
                   start := Some now'\<rparr>))
    \<and> (Verbose h \<and> detail \<noteq> [] \<longrightarrow>
       phase h now now' ln ts
         = Inr (ts\<lparr>log := pre @ heading @ elapsed h (now - t) @ [NL] @ detail @ ln @ [NL],
                   mark := length (pre @ heading @ elapsed h (now - t) @ [NL] @ detail @ ln @ [NL]),
                   start := Some now'\<rparr>))
    \<and> (detail = [] \<longrightarrow>
       phase h now now' ln ts
         = Inr (ts\<lparr>log := pre @ heading @ [NL] @ ln @ [NL],
                   mark := length (pre @ heading @ [NL] @ ln @ [NL]), start := Some now'\<rparr>))
    \<and> (\<not> Verbose h \<longrightarrow>
       final_phase h now ts
         = Inr (ts\<lparr>log := pre @ heading @ elapsed h (now - t) @ [NL], start := None\<rparr>))
    \<and> (Verbose h \<longrightarrow>
       final_phase h now ts
         = Inr (ts\<lparr>log := pre @ heading @ elapsed h (now - t) @ [NL] @ detail, start := None\<rparr>))"
proof (intro conjI impI)
  assume "\<not> Verbose h \<and> detail \<noteq> []"
  then show "phase h now now' ln ts
         = Inr (ts\<lparr>log := pre @ heading @ elapsed h (now - t) @ [NL] @ ln @ [NL],
                   mark := length (pre @ heading @ elapsed h (now - t) @ [NL] @ ln @ [NL]),
                   start := Some now'\<rparr>)"
    using phase_quiet [OF assms] by blast
next
  assume "Verbose h \<and> detail \<noteq> []"
  then show "phase h now now' ln ts
         = Inr (ts\<lparr>log := pre @ heading @ elapsed h (now - t) @ [NL] @ detail @ ln @ [NL],
                   mark := length (pre @ heading @ elapsed h (now - t) @ [NL] @ detail @ ln @ [NL]),
                   start := Some now'\<rparr>)"
    using phase_verbose [OF assms] by blast
next
  assume "detail = []"
  then show "phase h now now' ln ts
         = Inr (ts\<lparr>log := pre @ heading @ [NL] @ ln @ [NL],
                   mark := length (pre @ heading @ [NL] @ ln @ [NL]), start := Some now'\<rparr>)"
    using phase_idle [of ts pre heading t] assms by simp
next
  assume "\<not> Verbose h"
  then show "final_phase h now ts
         = Inr (ts\<lparr>log := pre @ heading @ elapsed h (now - t) @ [NL], start := None\<rparr>)"
    using final_phase_quiet [OF assms] by blast
next
  assume "Verbose h"
  then show "final_phase h now ts
         = Inr (ts\<lparr>log := pre @ heading @ elapsed h (now - t) @ [NL] @ detail, start := None\<rparr>)"
    using final_phase_verbose [OF assms] by blast
qed

lemma elapsed_example: "elapsed linux_host (5 - 0) = '' (5.000s)''"
  by code_simp

theorem phase_truncation_witness:
  "in_phase ts_busy [] ''# one'' (''> exec true'' @ [NL]) 0 \<and> \<not> Verbose linux_host
   \<and> phase linux_host 5 5 ''# two'' ts_busy
       = Inr (ts_busy\<lparr>log := ''# one (5.000s)'' @ [NL] @ ''# two'' @ [NL],
                       mark := length (''# one (5.000s)'' @ [NL] @ ''# two'' @ [NL]),
                       start := Some 5\<rparr>)
   \<and> Verbose (linux_host\<lparr>Verbose := True\<rparr>)
   \<and> phase (linux_host\<lparr>Verbose := True\<rparr>) 5 5 ''# two'' ts_busy
       = Inr (ts_busy\<lparr>log := ''# one (5.000s)'' @ [NL] @ ''> exec true'' @ [NL] @ ''# two'' @ [NL],
                       mark := length (''# one (5.000s)'' @ [NL] @ ''> exec true'' @ [NL] @ ''# two'' @ [NL]),
                       start := Some 5\<rparr>)
   \<and> final_phase linux_host 5 ts_busy
       = Inr (ts_busy\<lparr>log := ''# one (5.000s)'' @ [NL], start := None\<rparr>)
   \<and> final_phase (linux_host\<lparr>Verbose := True\<rparr>) 5 ts_busy
       = Inr (ts_busy\<lparr>log := ''# one (5.000s)'' @ [NL] @ ''> exec true'' @ [NL], start := None\<rparr>)
   \<and> in_phase ts_idle [] ''# one'' [] 0
   \<and> phase linux_host 5 5 ''# two'' ts_idle
       = Inr (ts_idle\<lparr>log := ''# one'' @ [NL] @ ''# two'' @ [NL],
                       mark := length (''# one'' @ [NL] @ ''# two'' @ [NL]), start := Some 5\<rparr>)
   \<and> final_phase linux_host 5 ts_idle
       = Inr (ts_idle\<lparr>log := ''# one (5.000s)'' @ [NL], start := None\<rparr>)"
proof -
  have i: "in_phase ts_busy [] ''# one'' (''> exec true'' @ [NL]) 0"
    by (simp add: in_phase_def ts_busy_def)
  have j: "in_phase ts_idle [] ''# one'' [] 0"
    by (simp add: in_phase_def ts_idle_def)
  have q: "\<not> Verbose linux_host" by (simp add: linux_host_def)
  have e: "elapsed (linux_host\<lparr>Verbose := True\<rparr>) (5 - 0) = '' (5.000s)''"
    using elapsed_example by (simp add: elapsed_def linux_host_def)
  show ?thesis
    using phase_truncation [OF i, of linux_host 5 5 "''# two''"]
      phase_truncation [OF i, of "linux_host\<lparr>Verbose := True\<rparr>" 5 5 "''# two''"]
      phase_truncation [OF j, of linux_host 5 5 "''# two''"]
      i j q e elapsed_example
    by simp
qed

theorem phase_idle_counterexample:
  "\<not> Verbose linux_host
   \<and> log ts_idle = ''# one'' @ [NL] \<and> mark ts_idle = length (log ts_idle) \<and> start ts_idle = Some 0
   \<and> phase linux_host 5 5 ''# two'' ts_idle
       = Inr (ts_idle\<lparr>log := ''# one'' @ [NL] @ ''# two'' @ [NL],
                       mark := length (''# one'' @ [NL] @ ''# two'' @ [NL]), start := Some 5\<rparr>)"
  by (simp add: phase_def andThen_def ts_idle_def new_script_def linux_host_def Let_def)

end
